theory Spec2Isabelle
  imports Complex_Main
begin

section \<open>Python strings\<close>

text \<open>
  A Python \<^verbatim>\<open>str\<close> is a sequence of Unicode code points, and \<^verbatim>\<open>len\<close> counts code
  points. The pages use characters beyond one byte (the ellipsis U+2026, emoji in titles),
  so a string is modelled as a list of code points. \<open>ascii\<close> embeds a literal whose
  characters are all ASCII.
\<close>

type_synonym pystr = "nat list"

definition ascii :: "string \<Rightarrow> pystr" where
  "ascii s = map of_char s"

text \<open>\<^verbatim>\<open>str(n)\<close> for a non-negative integer: its decimal digits.\<close>

fun digits :: "nat \<Rightarrow> pystr" where
  "digits n = (if n < 10 then [48 + n] else digits (n div 10) @ [48 + n mod 10])"

declare digits.simps [simp del]

definition str_of_int :: "int \<Rightarrow> pystr" where
  "str_of_int i = (if i < 0 then 45 # digits (nat (- i)) else digits (nat i))"

text \<open>
  \<^verbatim>\<open>str.isspace\<close> for one code point, as CPython's table of Unicode whitespace has it;
  \<^verbatim>\<open>str.strip()\<close> with no argument removes these from both ends.
\<close>

definition py_isspace :: "nat \<Rightarrow> bool" where
  "py_isspace c \<longleftrightarrow>
     (9 \<le> c \<and> c \<le> 13) \<or> (28 \<le> c \<and> c \<le> 32) \<or> c = 133 \<or> c = 160 \<or> c = 5760 \<or>
     (8192 \<le> c \<and> c \<le> 8202) \<or> c = 8232 \<or> c = 8233 \<or> c = 8239 \<or> c = 8287 \<or> c = 12288"

definition py_strip :: "pystr \<Rightarrow> pystr" where
  "py_strip s = rev (dropWhile py_isspace (rev (dropWhile py_isspace s)))"

text \<open>\<^verbatim>\<open>s.replace("\n", " ")\<close>: both strings are one character long.\<close>

definition replace_newlines :: "pystr \<Rightarrow> pystr" where
  "replace_newlines s = map (\<lambda>c. if c = 10 then 32 else c) s"

text \<open>
  \<^verbatim>\<open>s.rsplit(" ", 1)[0]\<close>: the part before the last space, or all of \<open>s\<close> when it has
  no space (the split then returns the one-element list \<^verbatim>\<open>[s]\<close>).
\<close>

definition rsplit_space_head :: "pystr \<Rightarrow> pystr" where
  "rsplit_space_head s =
     (if 32 \<in> set s then rev (tl (dropWhile (\<lambda>c. c \<noteq> 32) (rev s))) else s)"

text \<open>\<^verbatim>\<open>sep.join(parts)\<close>.\<close>

fun py_join :: "pystr \<Rightarrow> pystr list \<Rightarrow> pystr" where
  "py_join sep [] = []"
| "py_join sep [x] = x"
| "py_join sep (x # y # ys) = x @ sep @ py_join sep (y # ys)"

text \<open>\<^verbatim>\<open>os.path.join(a, b)\<close> on a POSIX system.\<close>

definition os_path_join :: "pystr \<Rightarrow> pystr \<Rightarrow> pystr" where
  "os_path_join a b =
     (if b \<noteq> [] \<and> hd b = 47 then b
      else if a = [] \<or> last a = 47 then a @ b
      else a @ [47] @ b)"


section \<open>login.py: role-based filtering of the configured apps\<close>

text \<open>
  An entry of \<^verbatim>\<open>conf.APPS\<close> is a dict. The entries of the repository have the keys
  \<^verbatim>\<open>name\<close>, \<^verbatim>\<open>description\<close>, \<^verbatim>\<open>page\<close> and \<^verbatim>\<open>access_privilege_role\<close>; the key
  \<^verbatim>\<open>page_icon\<close>, which \<^verbatim>\<open>get_streamlit_pages\<close> reads, is optional here because no
  configured entry has it.
\<close>

record app =
  app_name :: pystr
  app_description :: pystr
  app_page :: pystr
  access_privilege_role :: "pystr list"
  app_page_icon :: "pystr option"

definition APPS :: "app list" where
  "APPS =
     [\<lparr>app_name = ascii ''Personal ChatBot'', app_description = ascii ''Personal ChatBot'',
       app_page = ascii ''home.py'', access_privilege_role = [ascii ''user''],
       app_page_icon = None\<rparr>,
      \<lparr>app_name = ascii ''Personal ChatBot'', app_description = ascii ''Personal ChatBot'',
       app_page = ascii ''home.py'', access_privilege_role = [ascii ''admin''],
       app_page_icon = None\<rparr>]"

text \<open>\<^verbatim>\<open>list(set(user_role).intersection(set(allowed)))\<close>; only its length is used.\<close>

definition role_intersection :: "pystr list \<Rightarrow> pystr list \<Rightarrow> pystr list" where
  "role_intersection user_role allowed = remdups (filter (\<lambda>r. r \<in> set allowed) user_role)"

text \<open>The \<^verbatim>\<open>for app in apps\<close> loop of the non-admin branch, appending to the result.\<close>

fun accessible_loop :: "app list \<Rightarrow> pystr list \<Rightarrow> app list \<Rightarrow> app list" where
  "accessible_loop [] user_role acc = acc"
| "accessible_loop (a # rest) user_role acc =
     accessible_loop rest user_role
       (if length (role_intersection user_role (access_privilege_role a)) > 0
        then acc @ [a] else acc)"

text \<open>
  \<^verbatim>\<open>accessible_apps\<close> as login.py computes it from \<^verbatim>\<open>conf.APPS\<close> and
  \<^verbatim>\<open>st.session_state.get("roles")\<close> (\<open>None\<close> when the key is absent).
\<close>

definition accessible_apps :: "app list \<Rightarrow> pystr list option \<Rightarrow> app list" where
  "accessible_apps apps user_role =
     (case user_role of
        None \<Rightarrow> []
      | Some roles \<Rightarrow>
          if ascii ''admin'' \<in> set roles then apps else accessible_loop apps roles [])"

text \<open>
  A \<^verbatim>\<open>st.Page\<close>: the script \<^verbatim>\<open>Path(conf.PAGES_DIR, file)\<close>, kept as the pair of the
  directory and the file name, with its title, icon and default flag.
\<close>

record st_page =
  page_script :: "pystr \<times> pystr"
  page_title :: pystr
  page_icon :: pystr
  page_default :: bool

datatype py_error = KeyError pystr

text \<open>
  \<^verbatim>\<open>get_streamlit_pages\<close>: one page per accessible app. \<^verbatim>\<open>app["page_icon"]\<close> raises
  KeyError for an entry without that key. login.py defines the function and never calls
  it: its only use is in a commented-out entry of the navigation.
\<close>

fun get_streamlit_pages :: "pystr \<Rightarrow> app list \<Rightarrow> py_error + st_page list" where
  "get_streamlit_pages pages_dir [] = Inr []"
| "get_streamlit_pages pages_dir (a # rest) =
     (case app_page_icon a of
        None \<Rightarrow> Inl (KeyError (ascii ''page_icon''))
      | Some icon \<Rightarrow>
          (case get_streamlit_pages pages_dir rest of
             Inl e \<Rightarrow> Inl e
           | Inr ps \<Rightarrow>
               Inr (\<lparr>page_script = (pages_dir, app_page a), page_title = app_name a,
                     page_icon = icon, page_default = False\<rparr> # ps)))"

text \<open>
  The \<^verbatim>\<open>pages\<close> dict handed to \<^verbatim>\<open>st.navigation\<close>, as a list of sections. It is built
  after \<^verbatim>\<open>accessible_apps\<close> and does not read it; the parameters are kept to show that.
\<close>

definition pages :: "pystr \<Rightarrow> app list \<Rightarrow> pystr list option \<Rightarrow> (pystr \<times> st_page list) list" where
  "pages pages_dir apps user_role =
     [([127968, 65038] @ ascii '' Home'',
       [\<lparr>page_script = (pages_dir, ascii ''home1.py''), page_title = ascii ''Apps'',
         page_icon = ascii '':material/home:'', page_default = True\<rparr>])]"

text \<open>The scripts a logged-in user can navigate to.\<close>

definition navigable_scripts :: "pystr \<Rightarrow> app list \<Rightarrow> pystr list option \<Rightarrow> (pystr \<times> pystr) list" where
  "navigable_scripts pages_dir apps user_role =
     map page_script (concat (map snd (pages pages_dir apps user_role)))"


section \<open>The page scripts: exceptions, effects and the environment\<close>

text \<open>
  The exceptions a page script can meet. \<^verbatim>\<open>st.stop()\<close> raises Streamlit's
  StopException, which derives from BaseException and not from Exception, so no
  \<^verbatim>\<open>except Exception\<close> clause catches it. \<open>PyException\<close> stands for any other
  instance of Exception, \<open>PyBaseException\<close> for any other BaseException that is not an
  Exception (KeyboardInterrupt, SystemExit). Each carries what \<^verbatim>\<open>str(e)\<close> returns.
\<close>

datatype exn =
    StopException
  | DefaultCredentialsError pystr
  | PyException pystr
  | PyBaseException pystr

fun is_Exception :: "exn \<Rightarrow> bool" where
  "is_Exception (DefaultCredentialsError _) = True"
| "is_Exception (PyException _) = True"
| "is_Exception _ = False"

fun is_DefaultCredentialsError :: "exn \<Rightarrow> bool" where
  "is_DefaultCredentialsError (DefaultCredentialsError _) = True"
| "is_DefaultCredentialsError _ = False"

fun exn_str :: "exn \<Rightarrow> pystr" where
  "exn_str StopException = []"
| "exn_str (DefaultCredentialsError m) = m"
| "exn_str (PyException m) = m"
| "exn_str (PyBaseException m) = m"

text \<open>A metadata value of a document, and how an f-string renders it.\<close>

datatype pyval = PInt int | PStr pystr

fun py_str :: "pyval \<Rightarrow> pystr" where
  "py_str (PInt i) = str_of_int i"
| "py_str (PStr s) = s"

record doc =
  page_content :: pystr
  metadata :: "pystr \<rightharpoonup> pyval"

record upload =
  file_name :: pystr
  file_bytes :: "nat list"

text \<open>The Streamlit calls of the pages (the user-facing side).\<close>

datatype ui =
    StSetPageConfig
  | StTitle pystr
  | StError pystr
  | StWarning pystr
  | StInfo pystr
  | StStop
  | StFileUploader
  | StSpinner pystr
  | StChatMessage pystr pystr
  | StChatInput

text \<open>
  The calls that leave the script: the file system and the third-party libraries, each
  with the arguments the script passes.
\<close>

datatype call =
    FileOpen pystr
  | FileWrite pystr "nat list"
  | PdfLoaderInit pystr
  | PdfLoaderLoad
  | TextSplitterInit
  | SplitDocuments "doc list"
  | EmbeddingsInit
  | ChatModelInit
  | MakeDirs pystr
  | FaissFromDocuments "doc list"
  | AsRetriever
  | RagToolInit pystr
  | RagToolAdd pystr
  | AgentInit bool
  | GetRelevantDocuments pystr
  | SimilaritySearch pystr nat
  | SimilaritySearchWithScore pystr nat
  | TaskInit pystr pystr
  | CrewInit
  | CrewKickoff
  | FileRemove pystr

datatype event = Ui ui | Ext call "exn option"

text \<open>
  \<^verbatim>\<open>st.session_state\<close>, restricted to the keys the pages use; \<open>None\<close> is an absent key.
  A chat message is its role and its content.
\<close>

record session_state =
  initialized :: "bool option"
  vector_db_initialized :: "bool option"
  messages :: "(pystr \<times> pystr) list option"

text \<open>
  Everything one run of a page receives from outside: the environment variable, the
  widgets' values, and for every external call whether it raises (\<open>raises\<close>) and what it
  returns. \<open>tempdir\<close> is \<^verbatim>\<open>tempfile.gettempdir()\<close>, \<open>script_dir\<close> is
  \<^verbatim>\<open>os.path.dirname(__file__)\<close>, \<open>path_exists\<close> is \<^verbatim>\<open>os.path.exists\<close>
  at the moment the cleanup asks (it never raises).
\<close>

record env =
  api_key :: "pystr option"
  uploaded_file :: "upload option"
  user_input :: "pystr option"
  tempdir :: pystr
  script_dir :: pystr
  raises :: "call \<Rightarrow> exn option"
  path_exists :: "pystr \<Rightarrow> bool"
  loaded_pages :: "doc list"
  split_documents :: "doc list \<Rightarrow> doc list"
  has_get_relevant_documents :: bool
  get_relevant_documents :: "pystr \<Rightarrow> doc list"
  similarity_search :: "pystr \<Rightarrow> nat \<Rightarrow> doc list"
  similarity_search_with_score :: "pystr \<Rightarrow> nat \<Rightarrow> (doc \<times> real) list"
  kickoff_result :: pystr


text \<open>
  A script is a function of the session state. A run gives its outcome (\<open>Inr\<close>: it
  returned, \<open>Inl\<close>: it raised), the session state it leaves and the events it
  performed, in order.
\<close>

type_synonym 'a prog = "session_state \<Rightarrow> (exn + 'a) \<times> session_state \<times> event list"

definition outcome :: "(exn + 'a) \<times> session_state \<times> event list \<Rightarrow> exn + 'a" where
  "outcome r = fst r"

definition session_after :: "(exn + 'a) \<times> session_state \<times> event list \<Rightarrow> session_state" where
  "session_after r = fst (snd r)"

definition events :: "(exn + 'a) \<times> session_state \<times> event list \<Rightarrow> event list" where
  "events r = snd (snd r)"

definition pret :: "'a \<Rightarrow> 'a prog" where
  "pret x = (\<lambda>s. (Inr x, s, []))"

definition pbind :: "'a prog \<Rightarrow> ('a \<Rightarrow> 'b prog) \<Rightarrow> 'b prog" where
  "pbind m f =
     (\<lambda>s. case m s of
             (Inl e, s', tr) \<Rightarrow> (Inl e, s', tr)
           | (Inr x, s', tr) \<Rightarrow> (case f x s' of (r, s'', tr') \<Rightarrow> (r, s'', tr @ tr')))"

definition pseq :: "unit prog \<Rightarrow> 'b prog \<Rightarrow> 'b prog" where
  "pseq m k = pbind m (\<lambda>_. k)"

definition emit :: "ui \<Rightarrow> unit prog" where
  "emit u = (\<lambda>s. (Inr (), s, [Ui u]))"

text \<open>\<^verbatim>\<open>st.stop()\<close>.\<close>

definition st_stop :: "'a prog" where
  "st_stop = (\<lambda>s. (Inl StopException, s, [Ui StStop]))"

text \<open>An external call: recorded with its outcome, raising when the environment says so.\<close>

definition ext :: "env \<Rightarrow> call \<Rightarrow> unit prog" where
  "ext ev c =
     (\<lambda>s. ((case raises ev c of None \<Rightarrow> Inr () | Some e \<Rightarrow> Inl e), s, [Ext c (raises ev c)]))"

text \<open>\<^verbatim>\<open>raise e\<close>.\<close>

definition praise :: "exn \<Rightarrow> 'a prog" where
  "praise e = (\<lambda>s. (Inl e, s, []))"

text \<open>
  Reading a key of \<^verbatim>\<open>st.session_state\<close> that is absent raises an AttributeError, an
  Exception.
\<close>

definition attribute_error :: "pystr \<Rightarrow> exn" where
  "attribute_error key = PyException (ascii ''st.session_state has no attribute '' @ key)"

definition get_session :: "session_state prog" where
  "get_session = (\<lambda>s. (Inr s, s, []))"

definition modify_session :: "(session_state \<Rightarrow> session_state) \<Rightarrow> unit prog" where
  "modify_session f = (\<lambda>s. (Inr (), f s, []))"

text \<open>\<^verbatim>\<open>try: body  except C as e: handler\<close>, where \<open>catches\<close> says which exceptions are a C.\<close>

definition try_except :: "'a prog \<Rightarrow> (exn \<Rightarrow> bool) \<Rightarrow> (exn \<Rightarrow> 'a prog) \<Rightarrow> 'a prog" where
  "try_except body catches handler =
     (\<lambda>s. case body s of
             (Inl e, s', tr) \<Rightarrow>
               if catches e then (case handler e s' of (r, s'', tr') \<Rightarrow> (r, s'', tr @ tr'))
               else (Inl e, s', tr)
           | (Inr x, s', tr) \<Rightarrow> (Inr x, s', tr))"

text \<open>
  \<^verbatim>\<open>try: body  finally: cleanup\<close>: the cleanup runs on every exit of the body; the
  body's outcome stands unless the cleanup itself raises.
\<close>

definition try_finally :: "'a prog \<Rightarrow> unit prog \<Rightarrow> 'a prog" where
  "try_finally body cleanup =
     (\<lambda>s. case body s of
             (r, s', tr) \<Rightarrow>
               (case cleanup s' of
                  (Inl e, s'', tr') \<Rightarrow> (Inl e, s'', tr @ tr')
                | (Inr _, s'', tr') \<Rightarrow> (r, s'', tr @ tr')))"

text \<open>\<^verbatim>\<open>for msg in st.session_state.messages: st.chat_message(...).markdown(...)\<close>.\<close>

fun display_history :: "(pystr \<times> pystr) list \<Rightarrow> unit prog" where
  "display_history [] = pret ()"
| "display_history ((r, c) # ms) = pseq (emit (StChatMessage r c)) (display_history ms)"

text \<open>\<^verbatim>\<open>st.session_state.messages.append({"role": r, "content": c})\<close>.\<close>

definition append_message :: "pystr \<Rightarrow> pystr \<Rightarrow> unit prog" where
  "append_message r c =
     pbind get_session (\<lambda>s.
       case messages s of
         None \<Rightarrow> praise (attribute_error (ascii ''messages''))
       | Some ms \<Rightarrow> modify_session (\<lambda>s. s\<lparr>messages := Some (ms @ [(r, c)])\<rparr>))"

text \<open>\<^verbatim>\<open>if "messages" not in st.session_state: st.session_state.messages = []\<close>.\<close>

definition init_messages :: "unit prog" where
  "init_messages =
     modify_session (\<lambda>s. if messages s = None then s\<lparr>messages := Some []\<rparr> else s)"

definition show_history :: "unit prog" where
  "show_history =
     pbind get_session (\<lambda>s.
       case messages s of
         None \<Rightarrow> praise (attribute_error (ascii ''messages''))
       | Some ms \<Rightarrow> display_history ms)"

text \<open>\<^verbatim>\<open>not KEY\<close> for the value of \<^verbatim>\<open>os.getenv\<close>: true for None and for the empty string.\<close>

definition key_missing :: "pystr option \<Rightarrow> bool" where
  "key_missing k = (case k of None \<Rightarrow> True | Some v \<Rightarrow> v = [])"

text \<open>
  The \<^verbatim>\<open>finally\<close> block of both pages: \<^verbatim>\<open>if os.path.exists(temp_path)\<close>, then
  \<^verbatim>\<open>os.remove(temp_path)\<close> inside \<^verbatim>\<open>try ... except Exception: pass\<close>.
\<close>

definition cleanup_temp :: "env \<Rightarrow> pystr \<Rightarrow> unit prog" where
  "cleanup_temp ev temp_path =
     (if path_exists ev temp_path
      then try_except (ext ev (FileRemove temp_path)) is_Exception (\<lambda>_. pret ())
      else pret ())"

text \<open>
  The first statements of both \<^verbatim>\<open>try\<close> blocks, under the spinner: the upload is
  written to \<open>temp_path\<close>.
\<close>

definition save_upload :: "env \<Rightarrow> upload \<Rightarrow> pystr \<Rightarrow> unit prog" where
  "save_upload ev f temp_path =
     pseq (emit (StSpinner (ascii ''Processing uploaded file...'')))
    (pseq (ext ev (FileOpen temp_path))
          (ext ev (FileWrite temp_path (file_bytes f))))"


section \<open>pages/home1.py: the OpenAI-backed page\<close>

text \<open>
  \<^verbatim>\<open>src = d.metadata.get("page", d.metadata.get("source", f"chunk-{i}"))\<close>, as the
  f-string of the context part renders it.
\<close>

definition source_label :: "nat \<Rightarrow> doc \<Rightarrow> pystr" where
  "source_label i d =
     py_str (case metadata d (ascii ''page'') of
               Some v \<Rightarrow> v
             | None \<Rightarrow>
                 (case metadata d (ascii ''source'') of
                    Some v \<Rightarrow> v
                  | None \<Rightarrow> PStr (ascii ''chunk-'' @ digits i)))"

text \<open>
  The snippet of one retrieved document: newlines replaced, stripped, and when longer
  than 1000 characters \<^verbatim>\<open>snippet[:1000].rsplit(" ", 1)[0]\<close> followed by the ellipsis
  character U+2026 (code point 8230).
\<close>

definition clean_snippet :: "doc \<Rightarrow> pystr" where
  "clean_snippet d = py_strip (replace_newlines (page_content d))"

definition trim_snippet :: "pystr \<Rightarrow> pystr" where
  "trim_snippet snippet =
     (if length snippet > 1000 then rsplit_space_head (take 1000 snippet) @ [8230]
      else snippet)"

definition context_part :: "nat \<Rightarrow> doc \<Rightarrow> pystr" where
  "context_part i d =
     ascii ''[Source: '' @ source_label i d @ ascii '']\<newline>'' @ trim_snippet (clean_snippet d)"

text \<open>The loop \<^verbatim>\<open>for i, d in enumerate(top_docs, start=1)\<close>.\<close>

fun context_parts_from :: "nat \<Rightarrow> doc list \<Rightarrow> pystr list" where
  "context_parts_from i [] = []"
| "context_parts_from i (d # ds) = context_part i d # context_parts_from (Suc i) ds"

definition context_parts :: "doc list \<Rightarrow> pystr list" where
  "context_parts top_docs = context_parts_from 1 top_docs"

definition context_separator :: pystr where
  "context_separator = ascii ''\<newline>\<newline>---\<newline>\<newline>''"

definition no_context_placeholder :: pystr where
  "no_context_placeholder = ascii ''No relevant text was found in the document.''"

definition context_text :: "doc list \<Rightarrow> pystr" where
  "context_text top_docs =
     (let t = py_strip (py_join context_separator (context_parts top_docs))
      in if t = [] then no_context_placeholder else t)"

definition task_description :: "doc list \<Rightarrow> pystr \<Rightarrow> pystr" where
  "task_description top_docs question =
     ascii ''You are provided with context extracted from a PDF (below). Use ONLY this context to answer the question. ''
     @ ascii ''If the answer is not contained in the context, say you don't know. Cite the source labels in your answer.\<newline>\<newline>''
     @ ascii ''CONTEXT:\<newline>'' @ context_text top_docs
     @ ascii ''\<newline>\<newline>QUESTION:\<newline>'' @ question @ ascii ''\<newline>\<newline>''
     @ ascii ''Answer concisely and include source citations like [Source: page_number] or [Source: chunk-1].''"

text \<open>
  Retrieval: \<^verbatim>\<open>retriever.get_relevant_documents(user_input)[:5]\<close> when the retriever
  has that method; otherwise \<^verbatim>\<open>vectorstore.similarity_search(user_input, k=5)\<close>, and
  when that raises an Exception, the documents of
  \<^verbatim>\<open>vectorstore.similarity_search_with_score(user_input, k=5)\<close>.
\<close>

definition home1_retrieve :: "env \<Rightarrow> pystr \<Rightarrow> doc list prog" where
  "home1_retrieve ev q =
     (if has_get_relevant_documents ev
      then pseq (ext ev (GetRelevantDocuments q)) (pret (take 5 (get_relevant_documents ev q)))
      else try_except
             (pseq (ext ev (SimilaritySearch q 5)) (pret (similarity_search ev q 5)))
             is_Exception
             (\<lambda>_. pseq (ext ev (SimilaritySearchWithScore q 5))
                    (pret (map fst (similarity_search_with_score ev q 5)))))"

text \<open>The statements of the inner \<^verbatim>\<open>try\<close> after the retrieval.\<close>

definition home1_run_agent :: "env \<Rightarrow> upload \<Rightarrow> pystr \<Rightarrow> doc list \<Rightarrow> unit prog" where
  "home1_run_agent ev f q top_docs =
     pseq (ext ev (TaskInit (task_description top_docs q)
             (ascii ''Answer and cite sources (from '' @ file_name f @ ascii '')'')))
    (pseq (ext ev CrewInit)
    (pseq (ext ev CrewKickoff)
    (pseq (emit (StChatMessage (ascii ''assistant'') (kickoff_result ev)))
          (append_message (ascii ''assistant'') (kickoff_result ev)))))"

text \<open>The body of \<^verbatim>\<open>if user_input:\<close>.\<close>

definition home1_answer :: "env \<Rightarrow> upload \<Rightarrow> pystr \<Rightarrow> unit prog" where
  "home1_answer ev f q =
     pseq (emit (StChatMessage (ascii ''user'') q))
    (pseq (append_message (ascii ''user'') q)
    (pseq (emit (StSpinner (ascii ''Retrieving relevant passages...'')))
    (try_except
       (pbind (home1_retrieve ev q) (home1_run_agent ev f q))
       is_Exception
       (\<lambda>e. emit (StError (ascii ''Error processing question: '' @ exn_str e))))))"

text \<open>Document loading and chunking; the loop after it strips every chunk.\<close>

definition home1_load_documents :: "env \<Rightarrow> pystr \<Rightarrow> doc list prog" where
  "home1_load_documents ev temp_path =
     pseq (ext ev (PdfLoaderInit temp_path))
    (pseq (ext ev PdfLoaderLoad)
    (pseq (ext ev TextSplitterInit)
    (pseq (ext ev (SplitDocuments (loaded_pages ev)))
          (pret (map (\<lambda>d. d\<lparr>page_content := py_strip (page_content d)\<rparr>)
                   (split_documents ev (loaded_pages ev)))))))"

text \<open>The \<^verbatim>\<open>try\<close> around \<^verbatim>\<open>OpenAIEmbeddings(...)\<close>.\<close>

definition home1_embeddings :: "env \<Rightarrow> unit prog" where
  "home1_embeddings ev =
     try_except (ext ev EmbeddingsInit) is_Exception
       (\<lambda>e. pseq (emit (StError (ascii ''Failed to initialize OpenAI embeddings: '' @ exn_str e)))
              st_stop)"

text \<open>The \<^verbatim>\<open>try\<close> around \<^verbatim>\<open>os.makedirs\<close> and \<^verbatim>\<open>FAISS.from_documents\<close>.\<close>

definition home1_vectorstore :: "env \<Rightarrow> pystr \<Rightarrow> doc list \<Rightarrow> unit prog" where
  "home1_vectorstore ev vector_db_path docs =
     try_except (pseq (ext ev (MakeDirs vector_db_path)) (ext ev (FaissFromDocuments docs)))
       is_Exception
       (\<lambda>e. pseq (emit (StError (ascii ''Failed to build vector store: '' @ exn_str e)))
              st_stop)"

text \<open>
  The \<^verbatim>\<open>try\<close> around \<^verbatim>\<open>RagTool(...)\<close>; the result says whether \<^verbatim>\<open>rag_tool\<close> is set
  (it is None after a failure).
\<close>

definition home1_rag_tool :: "env \<Rightarrow> pystr \<Rightarrow> bool prog" where
  "home1_rag_tool ev vector_db_path =
     try_except (pseq (ext ev (RagToolInit vector_db_path)) (pret True)) is_Exception
       (\<lambda>e. pseq (emit (StWarning (ascii ''RagTool init failed (will still use retriever): '' @ exn_str e)))
              (pret False))"

text \<open>Chat history, agent, chat input and the answer to a question.\<close>

definition home1_chat :: "env \<Rightarrow> upload \<Rightarrow> bool \<Rightarrow> unit prog" where
  "home1_chat ev f has_rag_tool =
     pseq init_messages
    (pseq show_history
    (pseq (ext ev (AgentInit has_rag_tool))
    (pseq (emit StChatInput)
       (case user_input ev of
          None \<Rightarrow> pret ()
        | Some q \<Rightarrow> if q = [] then pret () else home1_answer ev f q))))"

text \<open>The body of the \<^verbatim>\<open>try\<close> block of home1.py.\<close>

definition home1_processing :: "env \<Rightarrow> upload \<Rightarrow> pystr \<Rightarrow> unit prog" where
  "home1_processing ev f temp_path =
     pseq (save_upload ev f temp_path)
    (pbind (home1_load_documents ev temp_path) (\<lambda>docs.
     pseq (home1_embeddings ev)
    (pseq (home1_vectorstore ev (os_path_join (script_dir ev) (ascii ''vector_db'')) docs)
    (pseq (ext ev AsRetriever)
    (pbind (home1_rag_tool ev (os_path_join (script_dir ev) (ascii ''vector_db'')))
       (home1_chat ev f))))))"

text \<open>The statements of home1.py before the upload is looked at.\<close>

definition home1_prelude :: "env \<Rightarrow> unit prog" where
  "home1_prelude ev =
     pseq (emit StSetPageConfig)
    (pseq (emit (StTitle ([128196] @ ascii '' PDF Assistant'')))
    (pseq (if key_missing (api_key ev)
           then pseq (emit (StError (ascii ''OpenAI API key not found. Please add OPENAI_API_KEY to your .env file.'')))
                  st_stop
           else pret ())
    (pseq (modify_session (\<lambda>s. if initialized s = None
                                then s\<lparr>initialized := Some False, vector_db_initialized := None\<rparr>
                                else s))
          (emit StFileUploader))))"

definition home1_temp_path :: "env \<Rightarrow> upload \<Rightarrow> pystr" where
  "home1_temp_path ev f = os_path_join (tempdir ev) (ascii ''temp_'' @ file_name f)"

text \<open>The whole script of home1.py.\<close>

definition home1_page :: "env \<Rightarrow> unit prog" where
  "home1_page ev =
     pseq (home1_prelude ev)
       (case uploaded_file ev of
          None \<Rightarrow> emit (StInfo (ascii ''Please upload a PDF file to start the conversation.''))
        | Some f \<Rightarrow>
            try_finally (home1_processing ev f (home1_temp_path ev f))
              (cleanup_temp ev (home1_temp_path ev f)))"


section \<open>pages/home.py: the Gemini-backed page\<close>

text \<open>
  The \<^verbatim>\<open>try\<close> around the two Google model constructors; only DefaultCredentialsError
  is caught.
\<close>

definition home_credentials :: "env \<Rightarrow> unit prog" where
  "home_credentials ev =
     try_except (pseq (ext ev EmbeddingsInit) (ext ev ChatModelInit))
       is_DefaultCredentialsError
       (\<lambda>e. pseq (emit (StError
                (ascii ''Google Application Default Credentials not found. ''
                 @ ascii ''Set GOOGLE_APPLICATION_CREDENTIALS to a service account JSON file or follow: ''
                 @ ascii ''https://cloud.google.com/docs/authentication/external/set-up-adc'')))
              st_stop)"

text \<open>
  \<^verbatim>\<open>if "vector_db_initialized" not in st.session_state\<close>, \<^verbatim>\<open>os.makedirs\<close> and the
  \<^verbatim>\<open>try\<close> around \<^verbatim>\<open>RagTool(...)\<close>.
\<close>

definition home_rag_tool :: "env \<Rightarrow> unit prog" where
  "home_rag_tool ev =
     pseq (modify_session (\<lambda>s. if vector_db_initialized s = None
                                then s\<lparr>vector_db_initialized := Some False\<rparr> else s))
    (pseq (ext ev (MakeDirs (ascii ''./vector_db'')))
          (try_except (ext ev (RagToolInit (ascii ''./vector_db''))) is_Exception
             (\<lambda>e. pseq (emit (StError (ascii ''Failed to initialize RAG tool: '' @ exn_str e)))
                    st_stop)))"

text \<open>
  \<^verbatim>\<open>if not st.session_state.vector_db_initialized:\<close> with the \<^verbatim>\<open>rag_tool.add\<close> call
  and the assignment of the flag that follows it inside the same \<^verbatim>\<open>try\<close>.
\<close>

definition home_index :: "env \<Rightarrow> pystr \<Rightarrow> unit prog" where
  "home_index ev temp_path =
     pbind get_session (\<lambda>s.
       case vector_db_initialized s of
         None \<Rightarrow> praise (attribute_error (ascii ''vector_db_initialized''))
       | Some flag \<Rightarrow>
           if \<not> flag
           then pseq (emit (StSpinner (ascii ''Loading PDF into vector database...'')))
                  (try_except
                     (pseq (ext ev (RagToolAdd temp_path))
                           (modify_session (\<lambda>s. s\<lparr>vector_db_initialized := Some True\<rparr>)))
                     is_Exception
                     (\<lambda>e. pseq (emit (StError (ascii ''Error loading PDF: '' @ exn_str e))) st_stop))
           else pret ())"

text \<open>The \<^verbatim>\<open>try\<close> around the task, the crew and \<^verbatim>\<open>crew.kickoff()\<close>.\<close>

definition home_run_agent :: "env \<Rightarrow> upload \<Rightarrow> pystr \<Rightarrow> unit prog" where
  "home_run_agent ev f q =
     pseq (ext ev (TaskInit q (ascii ''Answer based on the content of '' @ file_name f)))
    (pseq (ext ev CrewInit)
    (pseq (ext ev CrewKickoff)
    (pseq (emit (StChatMessage (ascii ''assistant'') (kickoff_result ev)))
          (append_message (ascii ''assistant'') (kickoff_result ev)))))"

text \<open>The body of \<^verbatim>\<open>if user_input:\<close>; the task description is the question itself.\<close>

definition home_answer :: "env \<Rightarrow> upload \<Rightarrow> pystr \<Rightarrow> unit prog" where
  "home_answer ev f q =
     pseq (emit (StChatMessage (ascii ''user'') q))
    (pseq (append_message (ascii ''user'') q)
    (pseq (emit (StSpinner (ascii ''Analyzing your question...'')))
    (try_except (home_run_agent ev f q) is_Exception
       (\<lambda>e. emit (StError (ascii ''Error processing your question: '' @ exn_str e))))))"

text \<open>Agent, chat history, chat input and the answer to a question.\<close>

definition home_chat :: "env \<Rightarrow> upload \<Rightarrow> unit prog" where
  "home_chat ev f =
     pseq (ext ev (AgentInit True))
    (pseq init_messages
    (pseq show_history
    (pseq (emit StChatInput)
       (case user_input ev of
          None \<Rightarrow> pret ()
        | Some q \<Rightarrow> if q = [] then pret () else home_answer ev f q))))"

text \<open>The body of the \<^verbatim>\<open>try\<close> block of home.py.\<close>

definition home_processing :: "env \<Rightarrow> upload \<Rightarrow> pystr \<Rightarrow> unit prog" where
  "home_processing ev f temp_path =
     pseq (save_upload ev f temp_path)
    (pseq (home_credentials ev)
    (pseq (home_rag_tool ev)
    (pseq (home_index ev temp_path)
          (home_chat ev f))))"

text \<open>The statements of home.py before the upload is looked at.\<close>

definition home_prelude :: "env \<Rightarrow> unit prog" where
  "home_prelude ev =
     pseq (emit StSetPageConfig)
    (pseq (emit (StTitle ([128196] @ ascii '' PDF Assistant'')))
    (pseq (if key_missing (api_key ev)
           then pseq (emit (StError (ascii ''GEMINI_API_KEY not set. Add it to your .env (GEMINI_API_KEY=...) or environment and restart.'')))
                  st_stop
           else pret ())
          (emit StFileUploader)))"

definition home_temp_path :: "upload \<Rightarrow> pystr" where
  "home_temp_path f = ascii ''temp_'' @ file_name f"

text \<open>The whole script of home.py.\<close>

definition home_page :: "env \<Rightarrow> unit prog" where
  "home_page ev =
     pseq (home_prelude ev)
       (case uploaded_file ev of
          None \<Rightarrow> emit (StInfo (ascii ''Please upload a PDF file to start the conversation.''))
        | Some f \<Rightarrow>
            try_finally (home_processing ev f (home_temp_path f))
              (cleanup_temp ev (home_temp_path f)))"

text \<open>
  Successive runs in one browser session: Streamlit reruns the script of the page that is
  shown on every interaction and keeps one \<^verbatim>\<open>st.session_state\<close> for the session, shared
  by the pages and kept also when a run stops or raises. A run is of home.py or of
  home1.py; the result is the events of all the runs in order.
\<close>

datatype page_run = RunHome env | RunHome1 env

fun session_runs :: "page_run list \<Rightarrow> session_state \<Rightarrow> event list" where
  "session_runs [] s = []"
| "session_runs (RunHome ev # rs) s =
     events (home_page ev s) @ session_runs rs (session_after (home_page ev s))"
| "session_runs (RunHome1 ev # rs) s =
     events (home1_page ev s) @ session_runs rs (session_after (home1_page ev s))"

fun is_home_run :: "page_run \<Rightarrow> bool" where
  "is_home_run (RunHome ev) = True"
| "is_home_run (RunHome1 ev) = False"


section \<open>Example inputs\<close>

text \<open>
  A run in which a PDF is uploaded, a question is asked, every external call succeeds and
  the retriever has \<^verbatim>\<open>get_relevant_documents\<close>; and a fresh session.
\<close>

definition example_doc :: doc where
  "example_doc =
     \<lparr>page_content = ascii ''Streamlit reruns the script.'',
      metadata = [ascii ''page'' \<mapsto> PInt 3]\<rparr>"

definition example_env :: env where
  "example_env =
     \<lparr>api_key = Some (ascii ''sk-test''),
      uploaded_file = Some \<lparr>file_name = ascii ''a.pdf'', file_bytes = [37, 80, 68, 70]\<rparr>,
      user_input = Some (ascii ''What reruns?''),
      tempdir = ascii ''/tmp'',
      script_dir = ascii ''/app/pages'',
      raises = (\<lambda>_. None),
      path_exists = (\<lambda>_. True),
      loaded_pages = [example_doc],
      split_documents = (\<lambda>ds. ds),
      has_get_relevant_documents = True,
      get_relevant_documents = (\<lambda>_. [example_doc]),
      similarity_search = (\<lambda>_ _. [example_doc]),
      similarity_search_with_score = (\<lambda>_ _. [(example_doc, 0)]),
      kickoff_result = ascii ''The script.''\<rparr>"

definition fresh_session :: session_state where
  "fresh_session = \<lparr>initialized = None, vector_db_initialized = None, messages = None\<rparr>"


text \<open>
  The same run with a PDF the loader rejects and a temporary file that cannot be deleted.
\<close>

definition failing_env :: env where
  "failing_env =
     example_env\<lparr>raises :=
       (\<lambda>c. case c of
               PdfLoaderLoad \<Rightarrow> Some (PyException (ascii ''not a PDF''))
             | FileRemove p \<Rightarrow> Some (PyException (ascii ''file in use''))
             | _ \<Rightarrow> None)\<rparr>"

text \<open>A snippet of 1201 characters whose last space in the first 1000 is at index 600.\<close>

definition long_snippet :: pystr where
  "long_snippet = replicate 600 97 @ [32] @ replicate 600 98"


text \<open>The example run with a model constructor that raises an Exception.\<close>

definition embeddings_failing_env :: env where
  "embeddings_failing_env =
     example_env\<lparr>raises :=
       (\<lambda>c. case c of
               EmbeddingsInit \<Rightarrow> Some (PyException (ascii ''invalid model''))
             | _ \<Rightarrow> None)\<rparr>"

text \<open>
  The example run with a retriever without \<^verbatim>\<open>get_relevant_documents\<close> and a
  \<^verbatim>\<open>similarity_search\<close> that raises.
\<close>

definition fallback_env :: env where
  "fallback_env =
     example_env\<lparr>has_get_relevant_documents := False,
       raises :=
         (\<lambda>c. case c of
                 SimilaritySearch q k \<Rightarrow> Some (PyException (ascii ''not supported''))
               | _ \<Rightarrow> None)\<rparr>"


text \<open>
  The example run with a retriever that returns seven documents, numbered by page; and
  the example run without \<^verbatim>\<open>get_relevant_documents\<close> and with a vector store whose
  \<^verbatim>\<open>similarity_search\<close> returns six documents.
\<close>

definition seven_docs :: "doc list" where
  "seven_docs =
     map (\<lambda>i. \<lparr>page_content = ascii ''chunk'', metadata = [ascii ''page'' \<mapsto> PInt (int i)]\<rparr>)
       [1 ..< 8]"

definition seven_env :: env where
  "seven_env = example_env\<lparr>get_relevant_documents := (\<lambda>_. seven_docs)\<rparr>"

definition six_env :: env where
  "six_env =
     example_env\<lparr>has_get_relevant_documents := False,
       similarity_search := (\<lambda>_ _. replicate 6 example_doc)\<rparr>"


text \<open>
  The example run with a retriever that returns two documents: one labelled by its page,
  with a newline inside and spaces around its text, and one labelled by its source.
\<close>

definition two_docs :: "doc list" where
  "two_docs =
     [\<lparr>page_content = ascii ''  Streamlit\<newline>reruns the script. '',
       metadata = [ascii ''page'' \<mapsto> PInt 3]\<rparr>,
      \<lparr>page_content = ascii ''State lives in the session.'',
       metadata = [ascii ''source'' \<mapsto> PStr (ascii ''a.pdf'')]\<rparr>]"

definition two_env :: env where
  "two_env = example_env\<lparr>get_relevant_documents := (\<lambda>_. two_docs)\<rparr>"


text \<open>The example run with a PDF uploaded and no question asked yet.\<close>

definition upload_env :: env where
  "upload_env = example_env\<lparr>user_input := None\<rparr>"


section \<open>Predicates on runs\<close>

text \<open>\<open>emits P m\<close>: every event of every run of \<open>m\<close> satisfies \<open>P\<close>.\<close>

definition emits :: "(event \<Rightarrow> bool) \<Rightarrow> 'a prog \<Rightarrow> bool" where
  "emits P m \<longleftrightarrow> (\<forall>s. \<forall>e \<in> set (events (m s)). P e)"

text \<open>\<open>returns R m\<close>: every value \<open>m\<close> returns satisfies \<open>R\<close>.\<close>

definition returns :: "('a \<Rightarrow> bool) \<Rightarrow> 'a prog \<Rightarrow> bool" where
  "returns R m \<longleftrightarrow> (\<forall>s x. outcome (m s) = Inr x \<longrightarrow> R x)"

named_theorems emits_intros

text \<open>
  The documents \<^verbatim>\<open>top_docs\<close> can be bound to for the question \<open>q\<close>, by the branch of the
  retrieval that produced them.
\<close>

definition home1_top_docs :: "env \<Rightarrow> pystr \<Rightarrow> doc list \<Rightarrow> bool" where
  "home1_top_docs ev q docs \<longleftrightarrow>
     (if has_get_relevant_documents ev then docs = take 5 (get_relevant_documents ev q)
      else docs = similarity_search ev q 5 \<or> docs = map fst (similarity_search_with_score ev q 5))"

text \<open>An event that creates a Task does so with the description built from the context.\<close>

definition task_from_context :: "env \<Rightarrow> event \<Rightarrow> bool" where
  "task_from_context ev e \<longleftrightarrow>
     (\<forall>d eo r. e = Ext (TaskInit d eo) r \<longrightarrow>
        (\<exists>q docs. user_input ev = Some q \<and> q \<noteq> [] \<and> home1_top_docs ev q docs \<and>
                  d = task_description docs q))"

text \<open>An event that removes a file removes \<open>tp\<close>.\<close>

definition removes_only :: "pystr \<Rightarrow> event \<Rightarrow> bool" where
  "removes_only tp e \<longleftrightarrow> (\<forall>p r. e = Ext (FileRemove p) r \<longrightarrow> p = tp)"

text \<open>An event that is a call of \<^verbatim>\<open>rag_tool.add\<close>, whatever its outcome.\<close>

definition is_add :: "event \<Rightarrow> bool" where
  "is_add e \<longleftrightarrow> (\<exists>p r. e = Ext (RagToolAdd p) r)"

text \<open>The session flag \<^verbatim>\<open>vector_db_initialized\<close> is present and True.\<close>

definition flag_set :: "session_state \<Rightarrow> bool" where
  "flag_set s \<longleftrightarrow> vector_db_initialized s = Some True"

text \<open>\<open>keeps I m\<close>: a run of \<open>m\<close> from a session that satisfies \<open>I\<close> leaves one that does.\<close>

definition keeps :: "(session_state \<Rightarrow> bool) \<Rightarrow> 'a prog \<Rightarrow> bool" where
  "keeps I m \<longleftrightarrow> (\<forall>s. I s \<longrightarrow> I (session_after (m s)))"

named_theorems keeps_intros

text \<open>A user-facing message: \<^verbatim>\<open>st.error\<close> or \<^verbatim>\<open>st.warning\<close>.\<close>

fun is_message :: "event \<Rightarrow> bool" where
  "is_message (Ui (StError m)) = True"
| "is_message (Ui (StWarning m)) = True"
| "is_message _ = False"

text \<open>
  \<open>surfaced H tr\<close>: every call of \<open>tr\<close> that raised an exception \<open>e\<close> with \<open>H c e\<close>
  is followed at once by a user-facing message.
\<close>

fun surfaced :: "(call \<Rightarrow> exn \<Rightarrow> bool) \<Rightarrow> event list \<Rightarrow> bool" where
  "surfaced H [] = True"
| "surfaced H (Ext c (Some e) # tr) =
     ((H c e \<longrightarrow> (case tr of [] \<Rightarrow> False | x # _ \<Rightarrow> is_message x)) \<and> surfaced H tr)"
| "surfaced H (Ext c None # tr) = surfaced H tr"
| "surfaced H (Ui u # tr) = surfaced H tr"

text \<open>
  The calls and exceptions of home1.py that sit in a \<^verbatim>\<open>try\<close> whose handler shows a
  message: every handler there is \<^verbatim>\<open>except Exception\<close>. \<^verbatim>\<open>similarity_search\<close> is
  not among them: its handler calls \<^verbatim>\<open>similarity_search_with_score\<close> instead.
\<close>

definition home1_surfaces :: "call \<Rightarrow> exn \<Rightarrow> bool" where
  "home1_surfaces c e \<longleftrightarrow>
     is_Exception e \<and>
     (case c of
        EmbeddingsInit \<Rightarrow> True
      | MakeDirs p \<Rightarrow> True
      | FaissFromDocuments ds \<Rightarrow> True
      | RagToolInit p \<Rightarrow> True
      | GetRelevantDocuments q \<Rightarrow> True
      | SimilaritySearchWithScore q k \<Rightarrow> True
      | TaskInit d eo \<Rightarrow> True
      | CrewInit \<Rightarrow> True
      | CrewKickoff \<Rightarrow> True
      | _ \<Rightarrow> False)"

text \<open>
  The same for home.py: the two model constructors are under
  \<^verbatim>\<open>except DefaultCredentialsError\<close>, the other handlers are \<^verbatim>\<open>except Exception\<close>;
  \<^verbatim>\<open>os.makedirs\<close> is outside every \<^verbatim>\<open>try ... except\<close>.
\<close>

definition home_surfaces :: "call \<Rightarrow> exn \<Rightarrow> bool" where
  "home_surfaces c e \<longleftrightarrow>
     (case c of
        EmbeddingsInit \<Rightarrow> is_DefaultCredentialsError e
      | ChatModelInit \<Rightarrow> is_DefaultCredentialsError e
      | RagToolInit p \<Rightarrow> is_Exception e
      | RagToolAdd p \<Rightarrow> is_Exception e
      | TaskInit d eo \<Rightarrow> is_Exception e
      | CrewInit \<Rightarrow> is_Exception e
      | CrewKickoff \<Rightarrow> is_Exception e
      | _ \<Rightarrow> False)"

text \<open>\<open>pend H tr\<close>: the events would be surfaced if a message followed them.\<close>

definition pend :: "(call \<Rightarrow> exn \<Rightarrow> bool) \<Rightarrow> event list \<Rightarrow> bool" where
  "pend H tr \<longleftrightarrow> surfaced H (tr @ [Ui (StError [])])"

text \<open>\<open>closed H m\<close>: the events of every run of \<open>m\<close> are surfaced.\<close>

definition closed :: "(call \<Rightarrow> exn \<Rightarrow> bool) \<Rightarrow> 'a prog \<Rightarrow> bool" where
  "closed H m \<longleftrightarrow> (\<forall>s. surfaced H (events (m s)))"

text \<open>
  \<open>pending H C m\<close>: the events of a run of \<open>m\<close> are surfaced but for a last call
  whose exception is the outcome of the run and satisfies \<open>C\<close>.
\<close>

definition pending :: "(call \<Rightarrow> exn \<Rightarrow> bool) \<Rightarrow> (exn \<Rightarrow> bool) \<Rightarrow> 'a prog \<Rightarrow> bool" where
  "pending H C m \<longleftrightarrow>
     (\<forall>s. pend H (events (m s)) \<and>
          (\<not> surfaced H (events (m s)) \<longrightarrow> (\<exists>e. outcome (m s) = Inl e \<and> C e)))"

text \<open>\<open>starts_with_message m\<close>: the first event of every run of \<open>m\<close> is a message.\<close>

definition starts_with_message :: "'a prog \<Rightarrow> bool" where
  "starts_with_message m \<longleftrightarrow> (\<forall>s. \<exists>x tr. events (m s) = x # tr \<and> is_message x)"

named_theorems closed_intros
named_theorems pending_intros

text \<open>
  The place of a call in the scripts: both pages make their external calls in this
  order.
\<close>

fun call_site :: "call \<Rightarrow> nat" where
  "call_site (FileOpen p) = 0"
| "call_site (FileWrite p b) = 1"
| "call_site (PdfLoaderInit p) = 2"
| "call_site PdfLoaderLoad = 3"
| "call_site TextSplitterInit = 4"
| "call_site (SplitDocuments ds) = 5"
| "call_site EmbeddingsInit = 6"
| "call_site ChatModelInit = 7"
| "call_site (MakeDirs p) = 8"
| "call_site (FaissFromDocuments ds) = 9"
| "call_site AsRetriever = 10"
| "call_site (RagToolInit p) = 11"
| "call_site (RagToolAdd p) = 12"
| "call_site (AgentInit t) = 13"
| "call_site (GetRelevantDocuments q) = 14"
| "call_site (SimilaritySearch q k) = 15"
| "call_site (SimilaritySearchWithScore q k) = 16"
| "call_site (TaskInit d eo) = 17"
| "call_site CrewInit = 18"
| "call_site CrewKickoff = 19"
| "call_site (FileRemove p) = 20"

text \<open>The external calls of a run, in order.\<close>

fun calls_made :: "event list \<Rightarrow> call list" where
  "calls_made [] = []"
| "calls_made (Ext c r # tr) = c # calls_made tr"
| "calls_made (Ui u # tr) = calls_made tr"

definition sites :: "event list \<Rightarrow> nat list" where
  "sites tr = map call_site (calls_made tr)"

text \<open>\<open>silent m\<close>: no run of \<open>m\<close> makes an external call.\<close>

definition silent :: "'a prog \<Rightarrow> bool" where
  "silent m \<longleftrightarrow> (\<forall>s. calls_made (events (m s)) = [])"

text \<open>
  \<open>ordered lo hi m\<close>: the call sites of a run of \<open>m\<close> are strictly increasing and
  lie in \<open>lo..<hi\<close>.
\<close>

definition ordered :: "nat \<Rightarrow> nat \<Rightarrow> 'a prog \<Rightarrow> bool" where
  "ordered lo hi m \<longleftrightarrow>
     lo \<le> hi \<and>
     (\<forall>s. sorted_wrt (<) (sites (events (m s))) \<and>
          (\<forall>k \<in> set (sites (events (m s))). lo \<le> k \<and> k < hi))"

named_theorems silent_intros
named_theorems ordered_intros

text \<open>
  \<open>origin I H m\<close>: from a session that satisfies \<open>I\<close>, a run of \<open>m\<close> raises only the
  StopException of \<^verbatim>\<open>st.stop()\<close> or an exception \<open>e\<close> raised by a call \<open>c\<close> of the run
  for which \<open>H c e\<close> does not hold.
\<close>

definition origin :: "(session_state \<Rightarrow> bool) \<Rightarrow> (call \<Rightarrow> exn \<Rightarrow> bool) \<Rightarrow> 'a prog \<Rightarrow> bool" where
  "origin I H m \<longleftrightarrow>
     (\<forall>s. I s \<longrightarrow>
        (\<forall>e. outcome (m s) = Inl e \<longrightarrow>
           e = StopException \<or> (\<exists>c. Ext c (Some e) \<in> set (events (m s)) \<and> \<not> H c e)))"

text \<open>The session keys the scripts read, after they have been set.\<close>

definition has_messages :: "session_state \<Rightarrow> bool" where
  "has_messages s \<longleftrightarrow> messages s \<noteq> None"

definition has_flag :: "session_state \<Rightarrow> bool" where
  "has_flag s \<longleftrightarrow> vector_db_initialized s \<noteq> None"

definition any_session :: "session_state \<Rightarrow> bool" where
  "any_session s \<longleftrightarrow> True"

named_theorems origin_intros

text \<open>An \<^verbatim>\<open>os.remove\<close> call.\<close>

fun is_remove :: "event \<Rightarrow> bool" where
  "is_remove (Ext (FileRemove p) r) = True"
| "is_remove _ = False"

text \<open>\<open>stop_is_final tr\<close>: after a \<^verbatim>\<open>st.stop()\<close> only \<^verbatim>\<open>os.remove\<close> calls follow.\<close>

fun stop_is_final :: "event list \<Rightarrow> bool" where
  "stop_is_final [] = True"
| "stop_is_final (Ui StStop # tr) = list_all is_remove tr"
| "stop_is_final (x # tr) = stop_is_final tr"

text \<open>
  \<open>halting m\<close>: a run of \<open>m\<close> that calls \<^verbatim>\<open>st.stop()\<close> ends there, with the
  StopException.
\<close>

definition halting :: "'a prog \<Rightarrow> bool" where
  "halting m \<longleftrightarrow>
     (\<forall>s. Ui StStop \<notin> set (events (m s)) \<or>
          (outcome (m s) = Inl StopException \<and>
           (\<exists>tr. events (m s) = tr @ [Ui StStop] \<and> Ui StStop \<notin> set tr)))"

named_theorems halting_intros


text \<open>
  A call of \<^verbatim>\<open>similarity_search\<close> that raised an Exception, and an event that answers
  it: a call of \<^verbatim>\<open>similarity_search_with_score\<close> with the same query and the same
  \<open>k\<close>.
\<close>

definition failed_search :: "event \<Rightarrow> bool" where
  "failed_search x \<longleftrightarrow>
     (case x of
        Ext c r \<Rightarrow>
          (case c of
             SimilaritySearch q k \<Rightarrow> (case r of Some e \<Rightarrow> is_Exception e | None \<Rightarrow> False)
           | _ \<Rightarrow> False)
      | Ui u \<Rightarrow> False)"

definition answers :: "event \<Rightarrow> event \<Rightarrow> bool" where
  "answers x y \<longleftrightarrow>
     (case x of
        Ext c r \<Rightarrow>
          (case c of
             SimilaritySearch q k \<Rightarrow>
               (case y of
                  Ext c' r' \<Rightarrow>
                    (case c' of
                       SimilaritySearchWithScore q' k' \<Rightarrow> q' = q \<and> k' = k
                     | _ \<Rightarrow> False)
                | Ui u \<Rightarrow> False)
           | _ \<Rightarrow> False)
      | Ui u \<Rightarrow> False)"

text \<open>
  \<open>falls_back tr\<close>: every failed search of \<open>tr\<close> is followed at once by its answer.
\<close>

fun falls_back :: "event list \<Rightarrow> bool" where
  "falls_back [] = True"
| "falls_back [x] = (\<not> failed_search x)"
| "falls_back (x # y # tr) = ((failed_search x \<longrightarrow> answers x y) \<and> falls_back (y # tr))"

text \<open>\<open>fallback m\<close>: the events of every run of \<open>m\<close> fall back.\<close>

definition fallback :: "'a prog \<Rightarrow> bool" where
  "fallback m \<longleftrightarrow> (\<forall>s. falls_back (events (m s)))"

named_theorems fallback_intros

text \<open>
  The calls that write outside the session state: creating, writing and deleting the
  temporary file, \<^verbatim>\<open>os.makedirs\<close>, and the RagTool constructor and \<^verbatim>\<open>rag_tool.add\<close>,
  which work on the persist directory. The FAISS index of home1.py stays in memory.
\<close>

definition writes_persisted :: "call \<Rightarrow> bool" where
  "writes_persisted c \<longleftrightarrow>
     (case c of
        FileOpen p \<Rightarrow> True
      | FileWrite p b \<Rightarrow> True
      | MakeDirs p \<Rightarrow> True
      | RagToolInit p \<Rightarrow> True
      | RagToolAdd p \<Rightarrow> True
      | FileRemove p \<Rightarrow> True
      | _ \<Rightarrow> False)"


section \<open>Role-based filtering\<close>

lemma accessible_loop_filter:
  "accessible_loop apps roles acc =
     acc @ filter (\<lambda>a. set roles \<inter> set (access_privilege_role a) \<noteq> {}) apps"
proof (induction apps arbitrary: acc)
  case Nil
  show ?case by simp
next
  case (Cons a rest)
  have "(0 < length (role_intersection roles (access_privilege_role a)))
        = (set roles \<inter> set (access_privilege_role a) \<noteq> {})"
    by (auto simp: role_intersection_def filter_empty_conv)
  then show ?case using Cons.IH by simp
qed

text \<open>
  C1. For a user with a role list (not None) and an app of the configured list, the app is
  among the accessible apps exactly when "admin" is one of the user's roles or the user's
  roles and the app's \<^verbatim>\<open>access_privilege_role\<close> have a role in common. So a non-admin
  user whose roles are disjoint from the app's allowed roles does not get the app.
\<close>

theorem accessible_apps_iff:
  assumes "a \<in> set apps"
  shows "a \<in> set (accessible_apps apps (Some roles)) \<longleftrightarrow>
           ascii ''admin'' \<in> set roles \<or> set roles \<inter> set (access_privilege_role a) \<noteq> {}"
  using assms by (auto simp: accessible_apps_def accessible_loop_filter)

theorem accessible_apps_iff_witness:
  "hd APPS \<in> set APPS \<and>
   hd APPS \<in> set (accessible_apps APPS (Some [ascii ''user''])) \<and>
   \<not> (ascii ''admin'' \<in> set [ascii ''user'']) \<and>
   set [ascii ''user''] \<inter> set (access_privilege_role (hd APPS)) \<noteq> {}"
proof -
  have h: "hd APPS \<in> set APPS" by (simp add: APPS_def)
  show ?thesis using h accessible_apps_iff [OF h, of "[ascii ''user'']"]
    by (simp add: APPS_def ascii_def)
qed

text \<open>
  C2, as stated, fails: for an admin the accessible apps are all of \<^verbatim>\<open>conf.APPS\<close>, but
  the page of the first configured app, home.py, is not among the scripts the navigation
  offers.
\<close>

theorem admin_navigation_counterexample:
  "hd APPS \<in> set (accessible_apps APPS (Some [ascii ''admin''])) \<and>
   (ascii ''pages'', app_page (hd APPS))
     \<notin> set (navigable_scripts (ascii ''pages'') APPS (Some [ascii ''admin'']))"
  by (simp add: APPS_def accessible_apps_def navigable_scripts_def pages_def ascii_def)

text \<open>
  C2, amended. For a user whose role list contains "admin" the accessible apps are the
  whole configured app list; the navigation offered to that user consists of the single
  script home1.py in the pages directory, whatever the configured apps are.
\<close>

theorem admin_accessible_all:
  assumes "ascii ''admin'' \<in> set roles"
  shows "accessible_apps apps (Some roles) = apps \<and>
         navigable_scripts pages_dir apps (Some roles) = [(pages_dir, ascii ''home1.py'')]"
  using assms by (simp add: accessible_apps_def navigable_scripts_def pages_def)

theorem admin_accessible_all_witness:
  "ascii ''admin'' \<in> set [ascii ''user'', ascii ''admin''] \<and>
   accessible_apps APPS (Some [ascii ''user'', ascii ''admin'']) = APPS \<and>
   navigable_scripts (ascii ''pages'') APPS (Some [ascii ''user'', ascii ''admin''])
     = [(ascii ''pages'', ascii ''home1.py'')]"
proof -
  have h: "ascii ''admin'' \<in> set [ascii ''user'', ascii ''admin'']" by simp
  show ?thesis using h admin_accessible_all [OF h, of APPS "ascii ''pages''"] by simp
qed


section \<open>Running composed scripts\<close>

lemma run_pret [simp]:
  "outcome (pret x s) = Inr x" "session_after (pret x s) = s" "events (pret x s) = []"
  by (simp_all add: pret_def outcome_def session_after_def events_def)

lemma run_emit [simp]:
  "outcome (emit u s) = Inr ()" "session_after (emit u s) = s" "events (emit u s) = [Ui u]"
  by (simp_all add: emit_def outcome_def session_after_def events_def)

lemma run_st_stop [simp]:
  "outcome (st_stop s) = Inl StopException" "session_after (st_stop s) = s"
  "events (st_stop s) = [Ui StStop]"
  by (simp_all add: st_stop_def outcome_def session_after_def events_def)

lemma run_praise [simp]:
  "outcome (praise e s) = Inl e" "session_after (praise e s) = s" "events (praise e s) = []"
  by (simp_all add: praise_def outcome_def session_after_def events_def)

lemma run_ext [simp]:
  "outcome (ext ev c s) = (case raises ev c of None \<Rightarrow> Inr () | Some e \<Rightarrow> Inl e)"
  "session_after (ext ev c s) = s"
  "events (ext ev c s) = [Ext c (raises ev c)]"
  by (simp_all add: ext_def outcome_def session_after_def events_def)

lemma run_get_session [simp]:
  "outcome (get_session s) = Inr s" "session_after (get_session s) = s"
  "events (get_session s) = []"
  by (simp_all add: get_session_def outcome_def session_after_def events_def)

lemma run_modify_session [simp]:
  "outcome (modify_session g s) = Inr ()" "session_after (modify_session g s) = g s"
  "events (modify_session g s) = []"
  by (simp_all add: modify_session_def outcome_def session_after_def events_def)

lemma run_pbind:
  "outcome (pbind m f s) =
     (case outcome (m s) of Inl e \<Rightarrow> Inl e | Inr x \<Rightarrow> outcome (f x (session_after (m s))))"
  "session_after (pbind m f s) =
     (case outcome (m s) of Inl e \<Rightarrow> session_after (m s)
      | Inr x \<Rightarrow> session_after (f x (session_after (m s))))"
  "events (pbind m f s) =
     events (m s) @ (case outcome (m s) of Inl e \<Rightarrow> []
                     | Inr x \<Rightarrow> events (f x (session_after (m s))))"
  by (auto simp: pbind_def outcome_def session_after_def events_def split: prod.splits sum.splits)

lemma run_pseq:
  "outcome (pseq m k s) =
     (case outcome (m s) of Inl e \<Rightarrow> Inl e | Inr x \<Rightarrow> outcome (k (session_after (m s))))"
  "session_after (pseq m k s) =
     (case outcome (m s) of Inl e \<Rightarrow> session_after (m s)
      | Inr x \<Rightarrow> session_after (k (session_after (m s))))"
  "events (pseq m k s) =
     events (m s) @ (case outcome (m s) of Inl e \<Rightarrow> [] | Inr x \<Rightarrow> events (k (session_after (m s))))"
  by (simp_all add: pseq_def run_pbind)

lemma run_try_except:
  "outcome (try_except b c h s) =
     (case outcome (b s) of
        Inl e \<Rightarrow> if c e then outcome (h e (session_after (b s))) else Inl e
      | Inr x \<Rightarrow> Inr x)"
  "session_after (try_except b c h s) =
     (case outcome (b s) of
        Inl e \<Rightarrow> if c e then session_after (h e (session_after (b s))) else session_after (b s)
      | Inr x \<Rightarrow> session_after (b s))"
  "events (try_except b c h s) =
     events (b s) @
     (case outcome (b s) of
        Inl e \<Rightarrow> if c e then events (h e (session_after (b s))) else []
      | Inr x \<Rightarrow> [])"
  by (auto simp: try_except_def outcome_def session_after_def events_def
      split: prod.splits sum.splits)

lemma run_try_finally:
  "outcome (try_finally b c s) =
     (case outcome (c (session_after (b s))) of Inl e \<Rightarrow> Inl e | Inr x \<Rightarrow> outcome (b s))"
  "session_after (try_finally b c s) = session_after (c (session_after (b s)))"
  "events (try_finally b c s) = events (b s) @ events (c (session_after (b s)))"
  by (auto simp: try_finally_def outcome_def session_after_def events_def
      split: prod.splits sum.splits)

lemma run_display_history [simp]:
  "outcome (display_history ms s) = Inr ()"
  "session_after (display_history ms s) = s"
  "events (display_history ms s) = map (\<lambda>(r, c). Ui (StChatMessage r c)) ms"
  by (induction ms arbitrary: s) (auto simp: run_pseq)

lemmas run_simps = run_pbind run_pseq run_try_except run_try_finally

lemma run_cleanup_temp:
  "outcome (cleanup_temp ev p s) =
     (case raises ev (FileRemove p) of
        None \<Rightarrow> Inr ()
      | Some e \<Rightarrow> if path_exists ev p \<and> \<not> is_Exception e then Inl e else Inr ())"
  "session_after (cleanup_temp ev p s) = s"
  "events (cleanup_temp ev p s) =
     (if path_exists ev p then [Ext (FileRemove p) (raises ev (FileRemove p))] else [])"
  by (auto simp: cleanup_temp_def run_simps split: option.splits)

lemma run_home_prelude_missing:
  "key_missing (api_key ev) \<Longrightarrow> outcome (home_prelude ev s) = Inl StopException"
  "key_missing (api_key ev) \<Longrightarrow> session_after (home_prelude ev s) = s"
  "key_missing (api_key ev) \<Longrightarrow> events (home_prelude ev s) =
     [Ui StSetPageConfig, Ui (StTitle ([128196] @ ascii '' PDF Assistant'')),
      Ui (StError (ascii ''GEMINI_API_KEY not set. Add it to your .env (GEMINI_API_KEY=...) or environment and restart.'')),
      Ui StStop]"
  by (simp_all add: home_prelude_def run_simps)

lemma run_home_prelude_present:
  "\<not> key_missing (api_key ev) \<Longrightarrow> outcome (home_prelude ev s) = Inr ()"
  "\<not> key_missing (api_key ev) \<Longrightarrow> session_after (home_prelude ev s) = s"
  "\<not> key_missing (api_key ev) \<Longrightarrow> events (home_prelude ev s) =
     [Ui StSetPageConfig, Ui (StTitle ([128196] @ ascii '' PDF Assistant'')), Ui StFileUploader]"
  by (simp_all add: home_prelude_def run_simps)

lemma run_home1_prelude_missing:
  "key_missing (api_key ev) \<Longrightarrow> outcome (home1_prelude ev s) = Inl StopException"
  "key_missing (api_key ev) \<Longrightarrow> session_after (home1_prelude ev s) = s"
  "key_missing (api_key ev) \<Longrightarrow> events (home1_prelude ev s) =
     [Ui StSetPageConfig, Ui (StTitle ([128196] @ ascii '' PDF Assistant'')),
      Ui (StError (ascii ''OpenAI API key not found. Please add OPENAI_API_KEY to your .env file.'')),
      Ui StStop]"
  by (simp_all add: home1_prelude_def run_simps)

lemma run_home1_prelude_present:
  "\<not> key_missing (api_key ev) \<Longrightarrow> outcome (home1_prelude ev s) = Inr ()"
  "\<not> key_missing (api_key ev) \<Longrightarrow> events (home1_prelude ev s) =
     [Ui StSetPageConfig, Ui (StTitle ([128196] @ ascii '' PDF Assistant'')), Ui StFileUploader]"
  by (simp_all add: home1_prelude_def run_simps)


section \<open>The API key check\<close>

text \<open>
  C3. When the API key of a page is unset or empty, the run of the page shows the error
  message and stops: its outcome is the StopException of \<^verbatim>\<open>st.stop()\<close>, its events are
  the page configuration, the title, the error message and the stop, and no external call
  is among them. This holds for home.py (GEMINI_API_KEY) and home1.py (OPENAI_API_KEY).
\<close>

theorem missing_key_halts:
  assumes "api_key ev = None \<or> api_key ev = Some []"
  shows "outcome (home_page ev s) = Inl StopException \<and>
         events (home_page ev s) =
           [Ui StSetPageConfig, Ui (StTitle ([128196] @ ascii '' PDF Assistant'')),
            Ui (StError (ascii ''GEMINI_API_KEY not set. Add it to your .env (GEMINI_API_KEY=...) or environment and restart.'')),
            Ui StStop] \<and>
         outcome (home1_page ev s) = Inl StopException \<and>
         events (home1_page ev s) =
           [Ui StSetPageConfig, Ui (StTitle ([128196] @ ascii '' PDF Assistant'')),
            Ui (StError (ascii ''OpenAI API key not found. Please add OPENAI_API_KEY to your .env file.'')),
            Ui StStop] \<and>
         (\<forall>c r. Ext c r \<notin> set (events (home_page ev s)) \<and> Ext c r \<notin> set (events (home1_page ev s)))"
proof -
  from assms have k: "key_missing (api_key ev)"
    by (auto simp: key_missing_def)
  show ?thesis
    by (simp add: home_page_def home1_page_def run_pseq
        run_home_prelude_missing [OF k] run_home1_prelude_missing [OF k])
qed



theorem missing_key_halts_witness:
  "(api_key (example_env\<lparr>api_key := None\<rparr>) = None \<or>
    api_key (example_env\<lparr>api_key := None\<rparr>) = Some []) \<and>
   outcome (home_page (example_env\<lparr>api_key := None\<rparr>) fresh_session) = Inl StopException \<and>
   outcome (home1_page (example_env\<lparr>api_key := None\<rparr>) fresh_session) = Inl StopException \<and>
   length (events (home1_page (example_env\<lparr>api_key := None\<rparr>) fresh_session)) = 4"
proof -
  have h: "api_key (example_env\<lparr>api_key := None\<rparr>) = None \<or>
           api_key (example_env\<lparr>api_key := None\<rparr>) = Some []"
    by simp
  show ?thesis
    using h missing_key_halts [OF h, of fresh_session] by simp
qed

section \<open>What a script can emit\<close>

lemma emitsD: "emits P m \<Longrightarrow> e \<in> set (events (m s)) \<Longrightarrow> P e"
  by (simp add: emits_def)

lemma emits_pret [emits_intros]: "emits P (pret x)"
  by (simp add: emits_def)

lemma emits_praise [emits_intros]: "emits P (praise e)"
  by (simp add: emits_def)

lemma emits_emit [emits_intros]: "P (Ui u) \<Longrightarrow> emits P (emit u)"
  by (simp add: emits_def)

lemma emits_st_stop [emits_intros]: "P (Ui StStop) \<Longrightarrow> emits P st_stop"
  by (simp add: emits_def)

lemma emits_ext [emits_intros]: "P (Ext c (raises ev c)) \<Longrightarrow> emits P (ext ev c)"
  by (simp add: emits_def)

lemma emits_get_session [emits_intros]: "emits P get_session"
  by (simp add: emits_def)

lemma emits_modify_session [emits_intros]: "emits P (modify_session g)"
  by (simp add: emits_def)

lemma emits_pbind [emits_intros]:
  "emits P m \<Longrightarrow> (\<And>x. emits P (f x)) \<Longrightarrow> emits P (pbind m f)"
  by (auto simp: emits_def run_pbind split: sum.splits)

lemma emits_pbind_returns:
  assumes m: "emits P m" and r: "returns R m" and f: "\<And>x. R x \<Longrightarrow> emits P (f x)"
  shows "emits P (pbind m f)"
proof (unfold emits_def, intro allI ballI)
  fix s e
  assume e: "e \<in> set (events (pbind m f s))"
  show "P e"
  proof (cases "outcome (m s)")
    case (Inl a)
    then show ?thesis using e m by (simp add: run_pbind emits_def)
  next
    case (Inr x)
    then have "R x" using r by (simp add: returns_def)
    then have "emits P (f x)" by (rule f)
    then show ?thesis using e m Inr by (auto simp: run_pbind emits_def)
  qed
qed

lemma emits_pseq [emits_intros]: "emits P m \<Longrightarrow> emits P k \<Longrightarrow> emits P (pseq m k)"
  by (simp add: pseq_def emits_pbind)

lemma emits_try_except [emits_intros]:
  "emits P b \<Longrightarrow> (\<And>e. emits P (h e)) \<Longrightarrow> emits P (try_except b c h)"
  by (auto simp: emits_def run_try_except split: sum.splits if_splits)

lemma emits_try_finally [emits_intros]:
  "emits P b \<Longrightarrow> emits P c \<Longrightarrow> emits P (try_finally b c)"
  by (auto simp: emits_def run_try_finally)

lemma emits_display_history [emits_intros]:
  "(\<And>r c. P (Ui (StChatMessage r c))) \<Longrightarrow> emits P (display_history ms)"
  by (auto simp: emits_def)

lemma emits_if [emits_intros]:
  "(b \<Longrightarrow> emits P m) \<Longrightarrow> (\<not> b \<Longrightarrow> emits P k) \<Longrightarrow> emits P (if b then m else k)"
  by simp

lemma emits_case_option [emits_intros]:
  "(x = None \<Longrightarrow> emits P m) \<Longrightarrow> (\<And>v. x = Some v \<Longrightarrow> emits P (k v)) \<Longrightarrow>
   emits P (case x of None \<Rightarrow> m | Some v \<Rightarrow> k v)"
  by (cases x) simp_all

lemma emits_init_messages [emits_intros]: "emits P init_messages"
  by (simp add: init_messages_def emits_intros)

lemma emits_append_message [emits_intros]: "emits P (append_message r c)"
  unfolding append_message_def by (intro emits_intros)

lemma emits_show_history [emits_intros]:
  "(\<And>r c. P (Ui (StChatMessage r c))) \<Longrightarrow> emits P show_history"
  unfolding show_history_def by (intro emits_intros) simp_all

lemma emits_cleanup_temp [emits_intros]:
  "P (Ext (FileRemove p) (raises ev (FileRemove p))) \<Longrightarrow> emits P (cleanup_temp ev p)"
  unfolding cleanup_temp_def by (intro emits_intros) simp

lemmas home1_stage_defs = home1_page_def home1_prelude_def home1_processing_def save_upload_def
  home1_load_documents_def home1_embeddings_def home1_vectorstore_def home1_rag_tool_def
  home1_chat_def

lemmas home_stage_defs = home_page_def home_prelude_def home_processing_def save_upload_def
  home_credentials_def home_rag_tool_def home_index_def home_chat_def home_answer_def
  home_run_agent_def

lemma returns_home1_retrieve: "returns (home1_top_docs ev q) (home1_retrieve ev q)"
  by (auto simp: returns_def home1_retrieve_def home1_top_docs_def run_simps
      split: option.splits if_splits sum.splits)

lemma emits_home1_retrieve: "emits (task_from_context ev) (home1_retrieve ev q)"
  unfolding home1_retrieve_def
  by (intro emits_intros) (simp_all add: task_from_context_def)

lemma emits_home1_answer:
  assumes "user_input ev = Some q" "q \<noteq> []"
  shows "emits (task_from_context ev) (home1_answer ev f q)"
proof -
  have body: "emits (task_from_context ev) (pbind (home1_retrieve ev q) (home1_run_agent ev f q))"
  proof (rule emits_pbind_returns [OF emits_home1_retrieve returns_home1_retrieve])
    fix docs assume "home1_top_docs ev q docs"
    then show "emits (task_from_context ev) (home1_run_agent ev f q docs)"
      unfolding home1_run_agent_def using assms
      by (intro emits_intros) (auto simp: task_from_context_def)
  qed
  show ?thesis
    unfolding home1_answer_def
    by (intro emits_pseq emits_try_except emits_emit emits_append_message body)
      (simp_all add: task_from_context_def)
qed

lemma emits_home1_page: "emits (task_from_context ev) (home1_page ev)"
  unfolding home1_stage_defs
  by (intro emits_intros emits_home1_answer) (simp_all add: task_from_context_def)

section \<open>The context block\<close>

lemma py_strip_Cons:
  assumes "\<not> py_isspace c"
  shows "\<exists>t. py_strip (c # xs) = c # t"
proof -
  have "dropWhile py_isspace (rev xs @ [c]) = dropWhile py_isspace (rev xs) @ [c]"
    using assms by (simp add: dropWhile_append)
  then show ?thesis using assms by (simp add: py_strip_def)
qed

lemma py_strip_Nil [simp]: "py_strip [] = []"
  by (simp add: py_strip_def)

lemma py_join_Cons: "\<exists>t. py_join sep (p # ps) = p @ t"
  by (cases ps) simp_all

lemma context_part_Cons: "\<exists>t. context_part i d = 91 # t"
  by (simp add: context_part_def ascii_def)

lemma context_text_Nil: "context_text [] = no_context_placeholder"
  by (simp add: context_text_def context_parts_def)

lemma strip_join_Cons:
  "\<exists>t. py_strip (py_join context_separator (context_parts (d # ds))) = 91 # t"
proof -
  obtain t1 where t1: "context_part 1 d = 91 # t1"
    using context_part_Cons by blast
  obtain t2 where t2: "py_join context_separator (context_parts (d # ds)) = context_part 1 d @ t2"
    using py_join_Cons [of context_separator "context_part 1 d" "context_parts_from 2 ds"]
    by (auto simp: context_parts_def numeral_2_eq_2)
  have "\<not> py_isspace 91" by (simp add: py_isspace_def)
  then obtain t3 where t3: "py_strip (91 # t1 @ t2) = 91 # t3"
    using py_strip_Cons by blast
  have "py_strip (py_join context_separator (context_parts (d # ds))) = 91 # t3"
    unfolding t2 t1 using t3 by simp
  then show ?thesis by blast
qed

lemma context_text_Cons: "\<exists>t. context_text (d # ds) = 91 # t"
proof -
  obtain t where "py_strip (py_join context_separator (context_parts (d # ds))) = 91 # t"
    using strip_join_Cons by blast
  then show ?thesis
    unfolding context_text_def by (simp add: Let_def)
qed

lemma context_text_nonempty_docs:
  assumes "docs \<noteq> []"
  shows "context_text docs = py_strip (py_join context_separator (context_parts docs))"
proof -
  obtain d ds where docs: "docs = d # ds"
    using assms by (cases docs) auto
  obtain t where "py_strip (py_join context_separator (context_parts (d # ds))) = 91 # t"
    using strip_join_Cons by blast
  then show ?thesis
    unfolding context_text_def docs by (simp add: Let_def)
qed

lemma placeholder_head: "\<exists>t. no_context_placeholder = 78 # t"
  by (simp add: no_context_placeholder_def ascii_def)

section \<open>Snippets\<close>

lemma length_rsplit_space_head: "length (rsplit_space_head s) \<le> length s"
proof -
  have "length (tl (dropWhile (\<lambda>c. c \<noteq> 32) (rev s))) \<le> length (rev s)"
    using length_dropWhile_le [of "\<lambda>c. c \<noteq> 32" "rev s"] by simp
  then show ?thesis by (simp add: rsplit_space_head_def)
qed

lemma rsplit_space_head_last_space:
  assumes "i < length s" and "s ! i = 32"
    and "\<forall>j. i < j \<and> j < length s \<longrightarrow> s ! j \<noteq> 32"
  shows "rsplit_space_head s = take i s"
proof -
  have split: "s = take i s @ 32 # drop (Suc i) s"
    using assms(1,2) by (metis id_take_nth_drop)
  have tail: "\<forall>c \<in> set (drop (Suc i) s). c \<noteq> 32"
  proof
    fix c assume "c \<in> set (drop (Suc i) s)"
    then obtain k where k: "k < length (drop (Suc i) s)" "drop (Suc i) s ! k = c"
      by (auto simp: in_set_conv_nth)
    then have "s ! (Suc i + k) = c" using assms(1) by simp
    moreover have "i < Suc i + k \<and> Suc i + k < length s" using k(1) by simp
    ultimately show "c \<noteq> 32" using assms(3) by blast
  qed
  have mem: "32 \<in> set s"
    using assms(1,2) by (metis nth_mem)
  have "rev s = rev (drop (Suc i) s) @ 32 # rev (take i s)"
    by (subst split) simp
  then have "dropWhile (\<lambda>c. c \<noteq> 32) (rev s) = 32 # rev (take i s)"
    using tail by (simp add: dropWhile_append)
  then show ?thesis using mem by (simp add: rsplit_space_head_def)
qed

lemma rsplit_space_head_no_space: "32 \<notin> set s \<Longrightarrow> rsplit_space_head s = s"
  by (simp add: rsplit_space_head_def)

lemma length_trim_snippet: "length (trim_snippet sn) \<le> 1001"
proof (cases "length sn > 1000")
  case True
  have "length (rsplit_space_head (take 1000 sn)) \<le> length (take 1000 sn)"
    by (rule length_rsplit_space_head)
  then show ?thesis using True by (simp add: trim_snippet_def)
next
  case False
  then show ?thesis by (simp add: trim_snippet_def)
qed

lemma trim_snippet_short: "length sn \<le> 1000 \<Longrightarrow> trim_snippet sn = sn"
  by (simp add: trim_snippet_def)

lemma trim_snippet_last_space:
  assumes "length sn > 1000" and "i < 1000" and "sn ! i = 32"
    and "\<forall>j. i < j \<and> j < 1000 \<longrightarrow> sn ! j \<noteq> 32"
  shows "trim_snippet sn = take i sn @ [8230]"
proof -
  have "rsplit_space_head (take 1000 sn) = take i (take 1000 sn)"
    using assms by (intro rsplit_space_head_last_space) auto
  then show ?thesis using assms(1,2) by (simp add: trim_snippet_def min_def)
qed

lemma trim_snippet_no_space:
  assumes "length sn > 1000" and "\<forall>j < 1000. sn ! j \<noteq> 32"
  shows "trim_snippet sn = take 1000 sn @ [8230]"
proof -
  have "32 \<notin> set (take 1000 sn)"
    using assms by (auto simp: in_set_conv_nth)
  then show ?thesis using assms(1) by (simp add: trim_snippet_def rsplit_space_head_no_space)
qed

lemma length_context_parts_from: "length (context_parts_from i ds) = length ds"
  by (induction ds arbitrary: i) simp_all

lemma nth_context_parts_from:
  "k < length ds \<Longrightarrow> context_parts_from i ds ! k = context_part (i + k) (ds ! k)"
proof (induction ds arbitrary: i k)
  case Nil
  then show ?case by simp
next
  case (Cons d ds)
  then show ?case by (cases k) simp_all
qed

lemma length_context_parts: "length (context_parts ds) = length ds"
  by (simp add: context_parts_def length_context_parts_from)

lemma nth_context_parts:
  "k < length ds \<Longrightarrow> context_parts ds ! k = context_part (Suc k) (ds ! k)"
  by (simp add: context_parts_def nth_context_parts_from)


lemma context_parts_from_zip:
  "context_parts_from i ds = map (\<lambda>(k, d). context_part k d) (zip [i..<i + length ds] ds)"
proof (induction ds arbitrary: i)
  case Nil
  show ?case by simp
next
  case (Cons d ds)
  have "[i..<i + length (d # ds)] = i # [Suc i..<Suc i + length ds]"
    by (simp add: upt_rec)
  then show ?case using Cons.IH [of "Suc i"] by simp
qed

lemma context_parts_zip:
  "context_parts ds = map (\<lambda>(k, d). context_part k d) (zip [1..<Suc (length ds)] ds)"
  using context_parts_from_zip [of 1 ds] by (simp add: context_parts_def)


section \<open>The placeholder for an empty context\<close>

text \<open>
  C10, as stated, fails: a single retrieved chunk whose cleaned snippet is empty gives the
  context block "[Source: chunk-1]", not the placeholder.
\<close>

theorem empty_snippet_counterexample:
  "clean_snippet \<lparr>page_content = ascii ''  '', metadata = Map.empty\<rparr> = [] \<and>
   context_text [\<lparr>page_content = ascii ''  '', metadata = Map.empty\<rparr>] = ascii ''[Source: chunk-1]'' \<and>
   context_text [\<lparr>page_content = ascii ''  '', metadata = Map.empty\<rparr>] \<noteq> no_context_placeholder"
  by (simp add: context_text_def context_parts_def context_part_def source_label_def
      clean_snippet_def trim_snippet_def replace_newlines_def py_strip_def py_isspace_def
      context_separator_def no_context_placeholder_def ascii_def digits.simps)


text \<open>
  C10, amended. The context block is the placeholder "No relevant text was found in the
  document." exactly when retrieval yields no chunks, and the context block is never
  empty, so the prompt never has an empty context section.
\<close>

theorem context_placeholder_iff:
  "(context_text docs = no_context_placeholder \<longleftrightarrow> docs = []) \<and> context_text docs \<noteq> []"
proof (cases docs)
  case Nil
  then show ?thesis
    by (simp add: context_text_Nil) (simp add: no_context_placeholder_def ascii_def)
next
  case (Cons d ds)
  obtain t where t: "context_text (d # ds) = 91 # t"
    using context_text_Cons by blast
  obtain u where u: "no_context_placeholder = 78 # u"
    using placeholder_head by blast
  have "context_text docs \<noteq> no_context_placeholder"
    unfolding Cons t u by simp
  moreover have "context_text docs \<noteq> []"
    unfolding Cons t by simp
  ultimately show ?thesis using Cons by simp
qed

theorem context_placeholder_iff_witness:
  "context_text [] = no_context_placeholder \<and>
   context_text [example_doc] \<noteq> no_context_placeholder \<and>
   context_text [example_doc] \<noteq> []"
  using context_placeholder_iff [of "[]"] context_placeholder_iff [of "[example_doc]"]
  by simp


section \<open>The prompt of home1.py\<close>

lemma example_env_fields:
  "api_key example_env = Some (ascii ''sk-test'')"
  "uploaded_file example_env = Some \<lparr>file_name = ascii ''a.pdf'', file_bytes = [37, 80, 68, 70]\<rparr>"
  "user_input example_env = Some (ascii ''What reruns?'')"
  "raises example_env = (\<lambda>_. None)"
  "path_exists example_env = (\<lambda>_. True)"
  "has_get_relevant_documents example_env = True"
  "get_relevant_documents example_env = (\<lambda>_. [example_doc])"
  "kickoff_result example_env = ascii ''The script.''"
  by (simp_all add: example_env_def)

lemma example_home1_task:
  "Ext (TaskInit (task_description [example_doc] (ascii ''What reruns?''))
          (ascii ''Answer and cite sources (from '' @ ascii ''a.pdf'' @ ascii '')'')) None
     \<in> set (events (home1_page example_env fresh_session))"
  by (simp add: home1_stage_defs home1_answer_def home1_retrieve_def home1_run_agent_def
      run_simps example_env_fields init_messages_def show_history_def append_message_def
      key_missing_def fresh_session_def run_cleanup_temp ascii_def)


lemma two_env_fields:
  "api_key two_env = Some (ascii ''sk-test'')"
  "uploaded_file two_env = Some \<lparr>file_name = ascii ''a.pdf'', file_bytes = [37, 80, 68, 70]\<rparr>"
  "user_input two_env = Some (ascii ''What reruns?'')"
  "raises two_env = (\<lambda>_. None)"
  "path_exists two_env = (\<lambda>_. True)"
  "has_get_relevant_documents two_env = True"
  "get_relevant_documents two_env = (\<lambda>_. two_docs)"
  "kickoff_result two_env = ascii ''The script.''"
  by (simp_all add: two_env_def example_env_def)

lemma two_home1_task:
  "Ext (TaskInit (task_description (take 5 two_docs) (ascii ''What reruns?''))
          (ascii ''Answer and cite sources (from '' @ ascii ''a.pdf'' @ ascii '')'')) None
     \<in> set (events (home1_page two_env fresh_session))"
  by (simp add: home1_stage_defs home1_answer_def home1_retrieve_def home1_run_agent_def
      run_simps two_env_fields init_messages_def show_history_def append_message_def
      key_missing_def fresh_session_def run_cleanup_temp ascii_def)

lemma two_docs_description:
  "task_description (take 5 two_docs) (ascii ''What reruns?'') =
     ascii ''You are provided with context extracted from a PDF (below). Use ONLY this context to answer the question. ''
     @ ascii ''If the answer is not contained in the context, say you don't know. Cite the source labels in your answer.\<newline>\<newline>''
     @ ascii ''CONTEXT:\<newline>''
     @ ascii ''[Source: 3]\<newline>Streamlit reruns the script.''
     @ ascii ''\<newline>\<newline>---\<newline>\<newline>''
     @ ascii ''[Source: a.pdf]\<newline>State lives in the session.''
     @ ascii ''\<newline>\<newline>QUESTION:\<newline>What reruns?\<newline>\<newline>''
     @ ascii ''Answer concisely and include source citations like [Source: page_number] or [Source: chunk-1].''"
  by (simp add: two_docs_def task_description_def context_text_def context_parts_def
      context_part_def source_label_def clean_snippet_def trim_snippet_def
      replace_newlines_def py_strip_def py_isspace_def context_separator_def
      str_of_int_def digits.simps ascii_def Let_def)




section \<open>The size of the context block\<close>

lemma seven_env_fields:
  "api_key seven_env = Some (ascii ''sk-test'')"
  "uploaded_file seven_env = Some \<lparr>file_name = ascii ''a.pdf'', file_bytes = [37, 80, 68, 70]\<rparr>"
  "user_input seven_env = Some (ascii ''What reruns?'')"
  "raises seven_env = (\<lambda>_. None)"
  "path_exists seven_env = (\<lambda>_. True)"
  "has_get_relevant_documents seven_env = True"
  "get_relevant_documents seven_env = (\<lambda>_. seven_docs)"
  "kickoff_result seven_env = ascii ''The script.''"
  by (simp_all add: seven_env_def example_env_def)

lemma six_env_fields:
  "api_key six_env = Some (ascii ''sk-test'')"
  "uploaded_file six_env = Some \<lparr>file_name = ascii ''a.pdf'', file_bytes = [37, 80, 68, 70]\<rparr>"
  "user_input six_env = Some (ascii ''What reruns?'')"
  "raises six_env = (\<lambda>_. None)"
  "path_exists six_env = (\<lambda>_. True)"
  "has_get_relevant_documents six_env = False"
  "similarity_search six_env = (\<lambda>_ _. replicate 6 example_doc)"
  "kickoff_result six_env = ascii ''The script.''"
  by (simp_all add: six_env_def example_env_def)

lemma seven_home1_task:
  "Ext (TaskInit (task_description (take 5 seven_docs) (ascii ''What reruns?''))
          (ascii ''Answer and cite sources (from '' @ ascii ''a.pdf'' @ ascii '')'')) None
     \<in> set (events (home1_page seven_env fresh_session))"
  by (simp add: home1_stage_defs home1_answer_def home1_retrieve_def home1_run_agent_def
      run_simps seven_env_fields init_messages_def show_history_def append_message_def
      key_missing_def fresh_session_def run_cleanup_temp ascii_def)

lemma six_home1_task:
  "Ext (TaskInit (task_description (replicate 6 example_doc) (ascii ''What reruns?''))
          (ascii ''Answer and cite sources (from '' @ ascii ''a.pdf'' @ ascii '')'')) None
     \<in> set (events (home1_page six_env fresh_session))"
  by (simp add: home1_stage_defs home1_answer_def home1_retrieve_def home1_run_agent_def
      run_simps six_env_fields init_messages_def show_history_def append_message_def
      key_missing_def fresh_session_def run_cleanup_temp ascii_def)




lemma long_snippet_facts:
  "1000 < length long_snippet" "long_snippet ! 600 = 32"
  "\<forall>j. 600 < j \<and> j < 1000 \<longrightarrow> long_snippet ! j \<noteq> 32"
  "take 600 long_snippet = replicate 600 97"
  by (auto simp: long_snippet_def nth_append)


section \<open>The temporary file\<close>

lemma emits_home1_answer_any:
  assumes "\<And>u. P (Ui u)" "\<And>c. (\<forall>p. c \<noteq> FileRemove p) \<Longrightarrow> P (Ext c (raises ev c))"
  shows "emits P (home1_answer ev f q)"
  unfolding home1_answer_def home1_retrieve_def home1_run_agent_def
  by (intro emits_intros assms) simp_all

lemma emits_home1_processing_any:
  assumes "\<And>u. P (Ui u)" "\<And>c. (\<forall>p. c \<noteq> FileRemove p) \<Longrightarrow> P (Ext c (raises ev c))"
  shows "emits P (home1_processing ev f tp)"
  unfolding home1_stage_defs
  by (intro emits_intros emits_home1_answer_any assms) simp_all

lemma emits_home_processing_any:
  assumes "\<And>u. P (Ui u)" "\<And>c. (\<forall>p. c \<noteq> FileRemove p) \<Longrightarrow> P (Ext c (raises ev c))"
  shows "emits P (home_processing ev f tp)"
  unfolding home_stage_defs
  by (intro emits_intros assms) simp_all

lemma run_save_upload:
  "events (save_upload ev f tp s) =
     [Ui (StSpinner (ascii ''Processing uploaded file...'')), Ext (FileOpen tp) (raises ev (FileOpen tp))]
     @ (case raises ev (FileOpen tp) of
          None \<Rightarrow> [Ext (FileWrite tp (file_bytes f)) (raises ev (FileWrite tp (file_bytes f)))]
        | Some e \<Rightarrow> [])"
  by (simp add: save_upload_def run_simps split: option.splits)

text \<open>
  C4. With a PDF uploaded (and the API key present), the events of a run are the events
  before the \<^verbatim>\<open>try\<close>, the events of the processing block, and then, when the temporary
  path exists, one \<^verbatim>\<open>os.remove\<close> of it: this holds whatever the outcome of the
  processing block is (return, \<^verbatim>\<open>st.stop()\<close> or any exception). When the delete raises
  nothing or an Exception, the outcome of the run is the outcome of the processing block:
  the delete's exception is suppressed. Both pages.
\<close>

theorem temp_file_cleanup:
  assumes "uploaded_file ev = Some f" and "\<not> key_missing (api_key ev)"
  shows "events (home_page ev s) =
           events (home_prelude ev s) @ events (home_processing ev f (home_temp_path f) s)
           @ (if path_exists ev (home_temp_path f)
              then [Ext (FileRemove (home_temp_path f)) (raises ev (FileRemove (home_temp_path f)))]
              else []) \<and>
         ((\<forall>e. raises ev (FileRemove (home_temp_path f)) = Some e \<longrightarrow> is_Exception e) \<longrightarrow>
            outcome (home_page ev s) = outcome (home_processing ev f (home_temp_path f) s)) \<and>
         events (home1_page ev s) =
           events (home1_prelude ev s)
           @ events (home1_processing ev f (home1_temp_path ev f) (session_after (home1_prelude ev s)))
           @ (if path_exists ev (home1_temp_path ev f)
              then [Ext (FileRemove (home1_temp_path ev f)) (raises ev (FileRemove (home1_temp_path ev f)))]
              else []) \<and>
         ((\<forall>e. raises ev (FileRemove (home1_temp_path ev f)) = Some e \<longrightarrow> is_Exception e) \<longrightarrow>
            outcome (home1_page ev s) =
              outcome (home1_processing ev f (home1_temp_path ev f) (session_after (home1_prelude ev s))))"
  using assms
  by (auto simp: home_page_def home1_page_def run_pseq run_try_finally run_cleanup_temp
      run_home_prelude_present run_home1_prelude_present split: option.splits)

lemma failing_env_fields:
  "api_key failing_env = Some (ascii ''sk-test'')"
  "uploaded_file failing_env = Some \<lparr>file_name = ascii ''a.pdf'', file_bytes = [37, 80, 68, 70]\<rparr>"
  "user_input failing_env = Some (ascii ''What reruns?'')"
  "path_exists failing_env = (\<lambda>_. True)"
  "raises failing_env PdfLoaderLoad = Some (PyException (ascii ''not a PDF''))"
  "raises failing_env (FileRemove p) = Some (PyException (ascii ''file in use''))"
  "raises failing_env (FileOpen p) = None"
  "raises failing_env (FileWrite p b) = None"
  "raises failing_env (PdfLoaderInit p) = None"
  by (simp_all add: failing_env_def example_env_def)

lemma failing_home1_processing:
  "outcome (home1_processing failing_env f tp s) = Inl (PyException (ascii ''not a PDF''))"
  by (simp add: home1_processing_def save_upload_def home1_load_documents_def run_simps
      failing_env_fields)

theorem temp_file_cleanup_witness:
  "uploaded_file failing_env = Some \<lparr>file_name = ascii ''a.pdf'', file_bytes = [37, 80, 68, 70]\<rparr> \<and>
   \<not> key_missing (api_key failing_env) \<and>
   path_exists failing_env (home1_temp_path failing_env \<lparr>file_name = ascii ''a.pdf'', file_bytes = [37, 80, 68, 70]\<rparr>) \<and>
   raises failing_env (FileRemove (home1_temp_path failing_env \<lparr>file_name = ascii ''a.pdf'', file_bytes = [37, 80, 68, 70]\<rparr>))
     = Some (PyException (ascii ''file in use'')) \<and>
   is_Exception (PyException (ascii ''file in use'')) \<and>
   outcome (home1_page failing_env fresh_session) = Inl (PyException (ascii ''not a PDF'')) \<and>
   last (events (home1_page failing_env fresh_session)) =
     Ext (FileRemove (home1_temp_path failing_env \<lparr>file_name = ascii ''a.pdf'', file_bytes = [37, 80, 68, 70]\<rparr>))
       (Some (PyException (ascii ''file in use'')))"
proof -
  have h1: "uploaded_file failing_env = Some \<lparr>file_name = ascii ''a.pdf'', file_bytes = [37, 80, 68, 70]\<rparr>"
    by (simp add: failing_env_fields)
  have h2: "\<not> key_missing (api_key failing_env)"
    by (simp add: failing_env_fields key_missing_def ascii_def)
  show ?thesis
    using h1 h2 temp_file_cleanup [OF h1 h2, of fresh_session]
    by (simp add: failing_env_fields failing_home1_processing)
qed

lemma home_page_first_events:
  assumes "uploaded_file ev = Some f" and "\<not> key_missing (api_key ev)"
  shows "\<exists>rest. events (home_page ev s) =
           [Ui StSetPageConfig, Ui (StTitle ([128196] @ ascii '' PDF Assistant'')), Ui StFileUploader,
            Ui (StSpinner (ascii ''Processing uploaded file...'')),
            Ext (FileOpen (home_temp_path f)) (raises ev (FileOpen (home_temp_path f)))] @ rest \<and>
           (raises ev (FileOpen (home_temp_path f)) = None \<longrightarrow>
              (\<exists>rest'. rest = Ext (FileWrite (home_temp_path f) (file_bytes f))
                                 (raises ev (FileWrite (home_temp_path f) (file_bytes f))) # rest'))"
  using assms
  by (simp add: home_page_def home_processing_def run_pseq run_try_finally
      run_home_prelude_present run_save_upload split: option.splits)

lemma home1_page_first_events:
  assumes "uploaded_file ev = Some f" and "\<not> key_missing (api_key ev)"
  shows "\<exists>rest. events (home1_page ev s) =
           [Ui StSetPageConfig, Ui (StTitle ([128196] @ ascii '' PDF Assistant'')), Ui StFileUploader,
            Ui (StSpinner (ascii ''Processing uploaded file...'')),
            Ext (FileOpen (home1_temp_path ev f)) (raises ev (FileOpen (home1_temp_path ev f)))] @ rest \<and>
           (raises ev (FileOpen (home1_temp_path ev f)) = None \<longrightarrow>
              (\<exists>rest'. rest = Ext (FileWrite (home1_temp_path ev f) (file_bytes f))
                                 (raises ev (FileWrite (home1_temp_path ev f) (file_bytes f))) # rest'))"
  using assms
  by (simp add: home1_page_def home1_processing_def run_pseq run_try_finally
      run_home1_prelude_present run_save_upload split: option.splits)

lemma home_page_removes:
  assumes "uploaded_file ev = Some f" and "\<not> key_missing (api_key ev)"
  shows "\<forall>p r. Ext (FileRemove p) r \<in> set (events (home_page ev s)) \<longrightarrow> p = home_temp_path f"
proof -
  have "emits (removes_only (home_temp_path f)) (home_processing ev f (home_temp_path f))"
    by (rule emits_home_processing_any) (simp_all add: removes_only_def)
  then have "\<forall>e \<in> set (events (home_processing ev f (home_temp_path f) s)). removes_only (home_temp_path f) e"
    by (simp add: emits_def)
  then show ?thesis
    using assms
    by (auto simp: home_page_def run_pseq run_try_finally run_cleanup_temp
        run_home_prelude_present removes_only_def)
qed

lemma home1_page_removes:
  assumes "uploaded_file ev = Some f" and "\<not> key_missing (api_key ev)"
  shows "\<forall>p r. Ext (FileRemove p) r \<in> set (events (home1_page ev s)) \<longrightarrow> p = home1_temp_path ev f"
proof -
  have "emits (removes_only (home1_temp_path ev f)) (home1_processing ev f (home1_temp_path ev f))"
    by (rule emits_home1_processing_any) (simp_all add: removes_only_def)
  then have "\<forall>e \<in> set (events (home1_processing ev f (home1_temp_path ev f) (session_after (home1_prelude ev s)))).
      removes_only (home1_temp_path ev f) e"
    by (simp add: emits_def)
  then show ?thesis
    using assms
    by (auto simp: home1_page_def run_pseq run_try_finally run_cleanup_temp
        run_home1_prelude_present removes_only_def)
qed

lemma home_page_last_event:
  assumes "uploaded_file ev = Some f" and "\<not> key_missing (api_key ev)"
    and "path_exists ev (home_temp_path f)"
  shows "last (events (home_page ev s)) =
           Ext (FileRemove (home_temp_path f)) (raises ev (FileRemove (home_temp_path f)))"
  using assms
  by (simp add: home_page_def run_pseq run_try_finally run_cleanup_temp
      run_home_prelude_present)

lemma home1_page_last_event:
  assumes "uploaded_file ev = Some f" and "\<not> key_missing (api_key ev)"
    and "path_exists ev (home1_temp_path ev f)"
  shows "last (events (home1_page ev s)) =
           Ext (FileRemove (home1_temp_path ev f)) (raises ev (FileRemove (home1_temp_path ev f)))"
  using assms
  by (simp add: home1_page_def run_pseq run_try_finally run_cleanup_temp
      run_home1_prelude_present)

lemma os_path_join_temp:
  "a \<noteq> [] \<and> last a \<noteq> 47 \<longrightarrow>
     os_path_join a (ascii ''temp_'' @ n) = a @ [47] @ ascii ''temp_'' @ n"
  by (simp add: os_path_join_def ascii_def)

text \<open>
  C7. With a PDF uploaded (and the API key present), the first external call of a run is
  opening the temporary path for writing, and when that succeeds the next is writing the
  uploaded bytes to it; every other external call comes later. Every \<^verbatim>\<open>os.remove\<close> of
  the run is of that same path, and when the path exists the run ends with the
  \<^verbatim>\<open>os.remove\<close> of it. The path is \<^verbatim>\<open>temp_\<close> followed by the name of the upload on
  home.py, and on home1.py the same joined to the system's temporary directory (with a
  slash between them when the directory does not end in one).
\<close>

theorem upload_written_first:
  assumes "uploaded_file ev = Some f" and "\<not> key_missing (api_key ev)"
  shows "(\<exists>rest. events (home_page ev s) =
           [Ui StSetPageConfig, Ui (StTitle ([128196] @ ascii '' PDF Assistant'')), Ui StFileUploader,
            Ui (StSpinner (ascii ''Processing uploaded file...'')),
            Ext (FileOpen (ascii ''temp_'' @ file_name f))
              (raises ev (FileOpen (ascii ''temp_'' @ file_name f)))] @ rest \<and>
           (raises ev (FileOpen (ascii ''temp_'' @ file_name f)) = None \<longrightarrow>
              (\<exists>rest'. rest = Ext (FileWrite (ascii ''temp_'' @ file_name f) (file_bytes f))
                                 (raises ev (FileWrite (ascii ''temp_'' @ file_name f) (file_bytes f)))
                               # rest'))) \<and>
         (\<forall>p r. Ext (FileRemove p) r \<in> set (events (home_page ev s)) \<longrightarrow>
                p = ascii ''temp_'' @ file_name f) \<and>
         (path_exists ev (ascii ''temp_'' @ file_name f) \<longrightarrow>
            last (events (home_page ev s)) =
              Ext (FileRemove (ascii ''temp_'' @ file_name f))
                (raises ev (FileRemove (ascii ''temp_'' @ file_name f)))) \<and>
         (\<exists>rest. events (home1_page ev s) =
           [Ui StSetPageConfig, Ui (StTitle ([128196] @ ascii '' PDF Assistant'')), Ui StFileUploader,
            Ui (StSpinner (ascii ''Processing uploaded file...'')),
            Ext (FileOpen (os_path_join (tempdir ev) (ascii ''temp_'' @ file_name f)))
              (raises ev (FileOpen (os_path_join (tempdir ev) (ascii ''temp_'' @ file_name f))))] @ rest \<and>
           (raises ev (FileOpen (os_path_join (tempdir ev) (ascii ''temp_'' @ file_name f))) = None \<longrightarrow>
              (\<exists>rest'. rest =
                 Ext (FileWrite (os_path_join (tempdir ev) (ascii ''temp_'' @ file_name f)) (file_bytes f))
                   (raises ev (FileWrite (os_path_join (tempdir ev) (ascii ''temp_'' @ file_name f))
                      (file_bytes f)))
                 # rest'))) \<and>
         (\<forall>p r. Ext (FileRemove p) r \<in> set (events (home1_page ev s)) \<longrightarrow>
                p = os_path_join (tempdir ev) (ascii ''temp_'' @ file_name f)) \<and>
         (path_exists ev (os_path_join (tempdir ev) (ascii ''temp_'' @ file_name f)) \<longrightarrow>
            last (events (home1_page ev s)) =
              Ext (FileRemove (os_path_join (tempdir ev) (ascii ''temp_'' @ file_name f)))
                (raises ev (FileRemove (os_path_join (tempdir ev) (ascii ''temp_'' @ file_name f))))) \<and>
         (tempdir ev \<noteq> [] \<and> last (tempdir ev) \<noteq> 47 \<longrightarrow>
            os_path_join (tempdir ev) (ascii ''temp_'' @ file_name f) =
              tempdir ev @ [47] @ ascii ''temp_'' @ file_name f)"
  using home_page_first_events [OF assms, unfolded home_temp_path_def]
    home_page_removes [OF assms, unfolded home_temp_path_def]
    home_page_last_event [OF assms, unfolded home_temp_path_def]
    home1_page_first_events [OF assms, unfolded home1_temp_path_def]
    home1_page_removes [OF assms, unfolded home1_temp_path_def]
    home1_page_last_event [OF assms, unfolded home1_temp_path_def]
    os_path_join_temp [of "tempdir ev" "file_name f"]
  by blast

theorem upload_written_first_witness:
  "uploaded_file example_env = Some \<lparr>file_name = ascii ''a.pdf'', file_bytes = [37, 80, 68, 70]\<rparr> \<and>
   \<not> key_missing (api_key example_env) \<and>
   raises example_env = (\<lambda>_. None) \<and> path_exists example_env = (\<lambda>_. True) \<and>
   tempdir example_env = ascii ''/tmp'' \<and>
   events (home_page example_env fresh_session) ! 4 =
     Ext (FileOpen (ascii ''temp_a.pdf'')) None \<and>
   events (home_page example_env fresh_session) ! 5 =
     Ext (FileWrite (ascii ''temp_a.pdf'') [37, 80, 68, 70]) None \<and>
   last (events (home_page example_env fresh_session)) =
     Ext (FileRemove (ascii ''temp_a.pdf'')) None \<and>
   Ext (FileRemove (ascii ''temp_a.pdf'')) None \<in> set (events (home_page example_env fresh_session)) \<and>
   events (home1_page example_env fresh_session) ! 4 =
     Ext (FileOpen (ascii ''/tmp/temp_a.pdf'')) None \<and>
   events (home1_page example_env fresh_session) ! 5 =
     Ext (FileWrite (ascii ''/tmp/temp_a.pdf'') [37, 80, 68, 70]) None \<and>
   last (events (home1_page example_env fresh_session)) =
     Ext (FileRemove (ascii ''/tmp/temp_a.pdf'')) None \<and>
   Ext (FileRemove (ascii ''/tmp/temp_a.pdf'')) None \<in> set (events (home1_page example_env fresh_session))"
proof -
  have h1: "uploaded_file example_env = Some \<lparr>file_name = ascii ''a.pdf'', file_bytes = [37, 80, 68, 70]\<rparr>"
    by (simp add: example_env_fields)
  have h2: "\<not> key_missing (api_key example_env)"
    by (simp add: example_env_fields key_missing_def ascii_def)
  have h3: "tempdir example_env = ascii ''/tmp''"
    by (simp add: example_env_def)
  note inst = upload_written_first [OF h1 h2, of fresh_session]
  have main: "events (home_page example_env fresh_session) ! 4 =
       Ext (FileOpen (ascii ''temp_a.pdf'')) None \<and>
     events (home_page example_env fresh_session) ! 5 =
       Ext (FileWrite (ascii ''temp_a.pdf'') [37, 80, 68, 70]) None \<and>
     last (events (home_page example_env fresh_session)) =
       Ext (FileRemove (ascii ''temp_a.pdf'')) None \<and>
     events (home1_page example_env fresh_session) ! 4 =
       Ext (FileOpen (ascii ''/tmp/temp_a.pdf'')) None \<and>
     events (home1_page example_env fresh_session) ! 5 =
       Ext (FileWrite (ascii ''/tmp/temp_a.pdf'') [37, 80, 68, 70]) None \<and>
     last (events (home1_page example_env fresh_session)) =
       Ext (FileRemove (ascii ''/tmp/temp_a.pdf'')) None"
    using h1 h2 h3 inst by (auto simp: example_env_fields ascii_def)
  have ne: "events (home_page example_env fresh_session) \<noteq> []"
    "events (home1_page example_env fresh_session) \<noteq> []"
    using inst by auto
  have "Ext (FileRemove (ascii ''temp_a.pdf'')) None
          \<in> set (events (home_page example_env fresh_session))"
    using last_in_set [OF ne(1)] main by simp
  moreover have "Ext (FileRemove (ascii ''/tmp/temp_a.pdf'')) None
          \<in> set (events (home1_page example_env fresh_session))"
    using last_in_set [OF ne(2)] main by simp
  ultimately show ?thesis
    using h1 h2 h3 main by (simp add: example_env_fields)
qed

section \<open>What a script keeps in the session\<close>

lemma keepsD: "keeps I m \<Longrightarrow> I s \<Longrightarrow> I (session_after (m s))"
  by (simp add: keeps_def)

lemma keeps_pret [keeps_intros]: "keeps I (pret x)"
  by (simp add: keeps_def)

lemma keeps_praise [keeps_intros]: "keeps I (praise e)"
  by (simp add: keeps_def)

lemma keeps_emit [keeps_intros]: "keeps I (emit u)"
  by (simp add: keeps_def)

lemma keeps_st_stop [keeps_intros]: "keeps I st_stop"
  by (simp add: keeps_def)

lemma keeps_ext [keeps_intros]: "keeps I (ext ev c)"
  by (simp add: keeps_def)

lemma keeps_get_session [keeps_intros]: "keeps I get_session"
  by (simp add: keeps_def)

lemma keeps_modify_session [keeps_intros]: "(\<And>s. I s \<Longrightarrow> I (g s)) \<Longrightarrow> keeps I (modify_session g)"
  by (simp add: keeps_def)

lemma keeps_pbind [keeps_intros]:
  "keeps I m \<Longrightarrow> (\<And>x. keeps I (f x)) \<Longrightarrow> keeps I (pbind m f)"
  by (auto simp: keeps_def run_pbind split: sum.splits)

lemma keeps_pseq [keeps_intros]: "keeps I m \<Longrightarrow> keeps I k \<Longrightarrow> keeps I (pseq m k)"
  by (simp add: pseq_def keeps_pbind)

lemma keeps_try_except [keeps_intros]:
  "keeps I b \<Longrightarrow> (\<And>e. keeps I (h e)) \<Longrightarrow> keeps I (try_except b c h)"
  by (auto simp: keeps_def run_try_except split: sum.splits)

lemma keeps_try_finally [keeps_intros]:
  "keeps I b \<Longrightarrow> keeps I c \<Longrightarrow> keeps I (try_finally b c)"
  by (auto simp: keeps_def run_try_finally)

lemma keeps_display_history [keeps_intros]: "keeps I (display_history ms)"
  by (simp add: keeps_def)

lemma keeps_if [keeps_intros]:
  "(b \<Longrightarrow> keeps I m) \<Longrightarrow> (\<not> b \<Longrightarrow> keeps I k) \<Longrightarrow> keeps I (if b then m else k)"
  by simp

lemma keeps_case_option [keeps_intros]:
  "(x = None \<Longrightarrow> keeps I m) \<Longrightarrow> (\<And>v. x = Some v \<Longrightarrow> keeps I (k v)) \<Longrightarrow>
   keeps I (case x of None \<Rightarrow> m | Some v \<Rightarrow> k v)"
  by (cases x) simp_all

lemma keeps_cleanup_temp [keeps_intros]: "keeps I (cleanup_temp ev p)"
  unfolding cleanup_temp_def by (intro keeps_intros)

lemma keeps_flag_home_page: "keeps flag_set (home_page ev)"
  unfolding home_stage_defs init_messages_def show_history_def append_message_def
  by (intro keeps_intros) (simp_all add: flag_set_def)

section \<open>Indexing on home.py\<close>

lemma emits_no_add_save_upload: "emits (\<lambda>e. \<not> is_add e) (save_upload ev f tp)"
  unfolding save_upload_def by (intro emits_intros) (simp_all add: is_add_def)

lemma emits_no_add_home_prelude: "emits (\<lambda>e. \<not> is_add e) (home_prelude ev)"
  unfolding home_prelude_def by (intro emits_intros) (simp_all add: is_add_def)

lemma emits_no_add_home_credentials: "emits (\<lambda>e. \<not> is_add e) (home_credentials ev)"
  unfolding home_credentials_def by (intro emits_intros) (simp_all add: is_add_def)

lemma emits_no_add_home_rag_tool: "emits (\<lambda>e. \<not> is_add e) (home_rag_tool ev)"
  unfolding home_rag_tool_def by (intro emits_intros) (simp_all add: is_add_def)

lemma emits_no_add_home_chat: "emits (\<lambda>e. \<not> is_add e) (home_chat ev f)"
  unfolding home_chat_def home_answer_def home_run_agent_def
  by (intro emits_intros) (simp_all add: is_add_def)

lemma emits_no_add_cleanup: "emits (\<lambda>e. \<not> is_add e) (cleanup_temp ev p)"
  by (intro emits_intros) (simp add: is_add_def)

lemma no_add_filter: "emits (\<lambda>e. \<not> is_add e) m \<Longrightarrow> filter is_add (events (m s)) = []"
  by (auto simp: emits_def filter_empty_conv)

lemmas no_add_filters =
  no_add_filter [OF emits_no_add_save_upload] no_add_filter [OF emits_no_add_home_prelude]
  no_add_filter [OF emits_no_add_home_credentials] no_add_filter [OF emits_no_add_home_rag_tool]
  no_add_filter [OF emits_no_add_home_chat] no_add_filter [OF emits_no_add_cleanup]

lemma session_save_upload [simp]: "session_after (save_upload ev f tp s) = s"
  by (simp add: save_upload_def run_simps split: option.splits)

lemma session_home_prelude [simp]: "session_after (home_prelude ev s) = s"
  by (simp add: home_prelude_def run_simps)

lemma session_home_credentials [simp]: "session_after (home_credentials ev s) = s"
  by (simp add: home_credentials_def run_simps split: option.splits)

lemma session_home_rag_tool:
  "session_after (home_rag_tool ev s) =
     (if vector_db_initialized s = None then s\<lparr>vector_db_initialized := Some False\<rparr> else s)"
  by (simp add: home_rag_tool_def run_simps split: option.splits)

lemma session_cleanup_temp [simp]: "session_after (cleanup_temp ev p s) = s"
  by (simp add: cleanup_temp_def run_simps split: option.splits)

lemma run_home_index:
  "events (home_index ev tp s) =
     (case vector_db_initialized s of
        None \<Rightarrow> []
      | Some flag \<Rightarrow>
          if flag then []
          else [Ui (StSpinner (ascii ''Loading PDF into vector database...'')),
                Ext (RagToolAdd tp) (raises ev (RagToolAdd tp))]
               @ (case raises ev (RagToolAdd tp) of
                    None \<Rightarrow> []
                  | Some e \<Rightarrow> if is_Exception e
                              then [Ui (StError (ascii ''Error loading PDF: '' @ exn_str e)), Ui StStop]
                              else []))"
  "session_after (home_index ev tp s) =
     (if vector_db_initialized s = Some False \<and> raises ev (RagToolAdd tp) = None
      then s\<lparr>vector_db_initialized := Some True\<rparr> else s)"
  "outcome (home_index ev tp s) =
     (case vector_db_initialized s of
        None \<Rightarrow> Inl (attribute_error (ascii ''vector_db_initialized''))
      | Some flag \<Rightarrow>
          if flag then Inr ()
          else (case raises ev (RagToolAdd tp) of
                  None \<Rightarrow> Inr ()
                | Some e \<Rightarrow> if is_Exception e then Inl StopException else Inl e))"
  by (auto simp: home_index_def run_simps split: option.splits)


lemma outcome_unit_cases: "(\<exists>e. (x :: exn + unit) = Inl e) \<or> x = Inr ()"
  by (cases x) auto

lemma adds_of_home_processing:
  "filter is_add (events (home_processing ev f tp s)) =
     (if outcome (save_upload ev f tp s) = Inr () \<and> outcome (home_credentials ev s) = Inr () \<and>
         outcome (home_rag_tool ev s) = Inr ()
      then filter is_add (events (home_index ev tp (session_after (home_rag_tool ev s))))
      else [])"
  by (simp add: home_processing_def run_pseq no_add_filters split: sum.splits)

lemma session_of_home_processing:
  assumes "outcome (save_upload ev f tp s) = Inr ()" "outcome (home_credentials ev s) = Inr ()"
    "outcome (home_rag_tool ev s) = Inr ()"
  shows "session_after (home_processing ev f tp s) =
     (case outcome (home_index ev tp (session_after (home_rag_tool ev s))) of
        Inl e \<Rightarrow> session_after (home_index ev tp (session_after (home_rag_tool ev s)))
      | Inr u \<Rightarrow> session_after (home_chat ev f (session_after (home_index ev tp (session_after (home_rag_tool ev s))))))"
  using assms by (simp add: home_processing_def run_pseq)

lemma keeps_flag_home_chat: "keeps flag_set (home_chat ev f)"
  unfolding home_chat_def home_answer_def home_run_agent_def init_messages_def show_history_def
    append_message_def
  by (intro keeps_intros) (simp_all add: flag_set_def)

lemma home_processing_no_add_when_set:
  assumes "flag_set s"
  shows "filter is_add (events (home_processing ev f tp s)) = []"
  using assms
  by (simp add: adds_of_home_processing session_home_rag_tool run_home_index flag_set_def)

lemma home_processing_adds_le_1:
  "length (filter is_add (events (home_processing ev f tp s))) \<le> 1"
  by (simp add: adds_of_home_processing run_home_index is_add_def split: option.splits)

lemma home_processing_flag_after_add:
  assumes "Ext (RagToolAdd p) None \<in> set (events (home_processing ev f tp s))"
  shows "flag_set (session_after (home_processing ev f tp s))"
proof -
  let ?s3 = "session_after (home_rag_tool ev s)"
  have "Ext (RagToolAdd p) None \<in> set (filter is_add (events (home_processing ev f tp s)))"
    using assms by (simp add: is_add_def)
  then have ok: "outcome (save_upload ev f tp s) = Inr ()" "outcome (home_credentials ev s) = Inr ()"
      "outcome (home_rag_tool ev s) = Inr ()"
    and mem: "Ext (RagToolAdd p) None \<in> set (events (home_index ev tp ?s3))"
    by (auto simp: adds_of_home_processing split: if_splits)
  from mem have flag: "vector_db_initialized ?s3 = Some False" and r: "raises ev (RagToolAdd tp) = None"
    by (auto simp: run_home_index split: option.splits if_splits)
  have s4: "flag_set (session_after (home_index ev tp ?s3))"
    using flag r by (simp add: run_home_index flag_set_def)
  have o4: "outcome (home_index ev tp ?s3) = Inr ()"
    using flag r by (simp add: run_home_index)
  show ?thesis
    using keepsD [OF keeps_flag_home_chat s4] o4
    by (simp add: session_of_home_processing [OF ok])
qed

lemma adds_of_home_page:
  "filter is_add (events (home_page ev s)) =
     (case uploaded_file ev of
        None \<Rightarrow> []
      | Some f \<Rightarrow>
          if outcome (home_prelude ev s) = Inr ()
          then filter is_add (events (home_processing ev f (home_temp_path f) s))
          else [])"
  by (simp add: home_page_def run_pseq run_try_finally no_add_filters is_add_def
      split: sum.splits option.splits)

lemma session_of_home_page:
  "session_after (home_page ev s) =
     (case uploaded_file ev of
        None \<Rightarrow> s
      | Some f \<Rightarrow>
          if outcome (home_prelude ev s) = Inr ()
          then session_after (home_processing ev f (home_temp_path f) s)
          else s)"
  by (simp add: home_page_def run_pseq run_try_finally split: sum.splits option.splits)

lemma home_page_no_add_when_set:
  assumes "flag_set s"
  shows "filter is_add (events (home_page ev s)) = []"
  using assms home_processing_no_add_when_set
  by (simp add: adds_of_home_page split: option.splits)

lemma home_page_adds_le_1: "length (filter is_add (events (home_page ev s))) \<le> 1"
  using home_processing_adds_le_1
  by (simp add: adds_of_home_page split: option.splits)

lemma home_page_flag_after_add:
  assumes "Ext (RagToolAdd p) None \<in> set (events (home_page ev s))"
  shows "flag_set (session_after (home_page ev s))"
proof -
  have "Ext (RagToolAdd p) None \<in> set (filter is_add (events (home_page ev s)))"
    using assms by (simp add: is_add_def)
  then obtain f where f: "uploaded_file ev = Some f" "outcome (home_prelude ev s) = Inr ()"
    and mem: "Ext (RagToolAdd p) None \<in> set (events (home_processing ev f (home_temp_path f) s))"
    by (cases "uploaded_file ev") (auto simp: adds_of_home_page split: if_splits)
  show ?thesis
    using home_processing_flag_after_add [OF mem] f by (simp add: session_of_home_page)
qed

lemma home_page_add_needs_unset:
  assumes "Ext (RagToolAdd p) r \<in> set (events (home_page ev s))"
  shows "vector_db_initialized s \<noteq> Some True"
proof
  assume "vector_db_initialized s = Some True"
  then have "filter is_add (events (home_page ev s)) = []"
    by (intro home_page_no_add_when_set) (simp add: flag_set_def)
  moreover have "Ext (RagToolAdd p) r \<in> set (filter is_add (events (home_page ev s)))"
    using assms by (simp add: is_add_def)
  ultimately show False by simp
qed

lemma keeps_initialized_home_page: "keeps (\<lambda>s. initialized s = i) (home_page ev)"
  unfolding home_stage_defs init_messages_def show_history_def append_message_def
  by (intro keeps_intros) simp_all

lemma emits_no_add_home1_page: "emits (\<lambda>e. \<not> is_add e) (home1_page ev)"
  unfolding home1_stage_defs home1_answer_def home1_retrieve_def home1_run_agent_def
  by (intro emits_intros) (simp_all add: is_add_def)

lemma keeps_initialized_home1_page: "keeps (\<lambda>s. initialized s \<noteq> None) (home1_page ev)"
  unfolding home1_stage_defs home1_answer_def home1_retrieve_def home1_run_agent_def
    init_messages_def show_history_def append_message_def
  by (intro keeps_intros) auto

lemma keeps_flag_home1_page:
  "keeps (\<lambda>s. initialized s \<noteq> None \<and> flag_set s) (home1_page ev)"
  unfolding home1_stage_defs home1_answer_def home1_retrieve_def home1_run_agent_def
    init_messages_def show_history_def append_message_def
  by (intro keeps_intros) (auto simp: flag_set_def)

lemma session_runs_no_add_when_set:
  "flag_set s \<Longrightarrow> initialized s \<noteq> None \<or> list_all is_home_run rs \<Longrightarrow>
   filter is_add (session_runs rs s) = []"
proof (induction rs s rule: session_runs.induct)
  case (1 s)
  show ?case by simp
next
  case (2 ev rs s)
  note IH = this(1) and flag = this(2) and pre0 = this(3)
  have f: "flag_set (session_after (home_page ev s))"
    using keepsD [OF keeps_flag_home_page flag] .
  have "initialized (session_after (home_page ev s)) = initialized s"
    using keepsD [OF keeps_initialized_home_page [of "initialized s"]] by simp
  then have "initialized (session_after (home_page ev s)) \<noteq> None \<or> list_all is_home_run rs"
    using pre0 by auto
  then show ?case
    using IH [OF f] home_page_no_add_when_set [OF flag] by simp
next
  case (3 ev rs s)
  note IH = this(1) and flag = this(2) and pre0 = this(3)
  from pre0 have i: "initialized s \<noteq> None" by simp
  have "initialized (session_after (home1_page ev s)) \<noteq> None \<and>
        flag_set (session_after (home1_page ev s))"
    using keepsD [OF keeps_flag_home1_page, of s ev] i flag by simp
  then show ?case
    using IH no_add_filter [OF emits_no_add_home1_page] by simp
qed

lemma session_runs_add_once:
  "session_runs rs s = a @ Ext (RagToolAdd p) None # b \<Longrightarrow>
   initialized s \<noteq> None \<or> list_all is_home_run rs \<Longrightarrow> filter is_add b = []"
proof (induction rs s arbitrary: a rule: session_runs.induct)
  case (1 s)
  then show ?case by simp
next
  case (2 ev rs s)
  note IH = this(1) and split = this(2) and pre0 = this(3)
  let ?run = "events (home_page ev s)"
  let ?s = "session_after (home_page ev s)"
  let ?rest = "session_runs rs ?s"
  have "initialized ?s = initialized s"
    using keepsD [OF keeps_initialized_home_page [of "initialized s"]] by simp
  then have pre: "initialized ?s \<noteq> None \<or> list_all is_home_run rs"
    using pre0 by auto
  from split have eq: "?run @ ?rest = a @ Ext (RagToolAdd p) None # b" by simp
  then consider (here) u where "?run = a @ Ext (RagToolAdd p) None # u" "b = u @ ?rest"
    | (later) u where "a = ?run @ u" "?rest = u @ Ext (RagToolAdd p) None # b"
    by (auto simp: append_eq_append_conv2 append_eq_Cons_conv Cons_eq_append_conv)
  then show ?case
  proof cases
    case here
    have "length (filter is_add ?run) \<le> 1" by (rule home_page_adds_le_1)
    then have u: "filter is_add u = []"
      using here(1) by (simp add: is_add_def)
    have "Ext (RagToolAdd p) None \<in> set ?run" using here(1) by simp
    then have "flag_set ?s" by (rule home_page_flag_after_add)
    then have "filter is_add ?rest = []" using pre by (rule session_runs_no_add_when_set)
    then show ?thesis using u here(2) by simp
  next
    case later
    show ?thesis using IH [OF later(2) pre] .
  qed
next
  case (3 ev rs s)
  note IH = this(1) and split = this(2) and pre0 = this(3)
  let ?run = "events (home1_page ev s)"
  let ?s = "session_after (home1_page ev s)"
  let ?rest = "session_runs rs ?s"
  from pre0 have i: "initialized s \<noteq> None" by simp
  have pre: "initialized ?s \<noteq> None \<or> list_all is_home_run rs"
    using keepsD [OF keeps_initialized_home1_page, of s ev] i by simp
  have none: "filter is_add ?run = []"
    by (rule no_add_filter [OF emits_no_add_home1_page])
  from split have eq: "?run @ ?rest = a @ Ext (RagToolAdd p) None # b" by simp
  then consider (here) u where "?run = a @ Ext (RagToolAdd p) None # u" "b = u @ ?rest"
    | (later) u where "a = ?run @ u" "?rest = u @ Ext (RagToolAdd p) None # b"
    by (auto simp: append_eq_append_conv2 append_eq_Cons_conv Cons_eq_append_conv)
  then show ?case
  proof cases
    case here
    then show ?thesis using none by (simp add: is_add_def)
  next
    case later
    show ?thesis using IH [OF later(2) pre] .
  qed
qed


lemma session_home1_prelude_present:
  "\<not> key_missing (api_key ev) \<Longrightarrow> session_after (home1_prelude ev s) =
     (if initialized s = None then s\<lparr>initialized := Some False, vector_db_initialized := None\<rparr>
      else s)"
  by (simp add: home1_prelude_def run_simps)

lemma keeps_home1_upload:
  assumes "\<And>s m. I s \<Longrightarrow> I (s\<lparr>messages := m\<rparr>)"
  shows "keeps I (case uploaded_file ev of
            None \<Rightarrow> emit (StInfo (ascii ''Please upload a PDF file to start the conversation.''))
          | Some f \<Rightarrow>
              try_finally (home1_processing ev f (home1_temp_path ev f))
                (cleanup_temp ev (home1_temp_path ev f)))"
  unfolding home1_processing_def save_upload_def
    home1_load_documents_def home1_embeddings_def home1_vectorstore_def home1_rag_tool_def
    home1_chat_def home1_answer_def home1_retrieve_def home1_run_agent_def
    init_messages_def show_history_def append_message_def
  by (intro keeps_intros) (simp_all add: assms)


lemma home1_page_initialized:
  "session_after (home1_page ev s) = s \<or> initialized (session_after (home1_page ev s)) \<noteq> None"
proof (cases "key_missing (api_key ev)")
  case True
  then show ?thesis
    by (simp add: home1_page_def run_pseq run_home1_prelude_missing)
next
  case False
  let ?s = "session_after (home1_prelude ev s)"
  have "initialized ?s \<noteq> None"
    using False by (auto simp: session_home1_prelude_present)
  moreover have "keeps (\<lambda>s. initialized s \<noteq> None)
      (case uploaded_file ev of
          None \<Rightarrow> emit (StInfo (ascii ''Please upload a PDF file to start the conversation.''))
        | Some f \<Rightarrow>
            try_finally (home1_processing ev f (home1_temp_path ev f))
              (cleanup_temp ev (home1_temp_path ev f)))"
    by (rule keeps_home1_upload) simp
  ultimately have "initialized (session_after
      ((case uploaded_file ev of
          None \<Rightarrow> emit (StInfo (ascii ''Please upload a PDF file to start the conversation.''))
        | Some f \<Rightarrow>
            try_finally (home1_processing ev f (home1_temp_path ev f))
              (cleanup_temp ev (home1_temp_path ev f))) ?s)) \<noteq> None"
    by (simp add: keeps_def)
  then show ?thesis
    using False by (simp add: home1_page_def run_pseq run_home1_prelude_present)
qed

lemma home1_page_deletes_flag:
  assumes "initialized s = None" and "\<not> key_missing (api_key ev)"
  shows "vector_db_initialized (session_after (home1_page ev s)) = None"
proof -
  let ?s = "session_after (home1_prelude ev s)"
  have "vector_db_initialized ?s = None"
    using assms by (simp add: session_home1_prelude_present)
  moreover have "keeps (\<lambda>s. vector_db_initialized s = None)
      (case uploaded_file ev of
          None \<Rightarrow> emit (StInfo (ascii ''Please upload a PDF file to start the conversation.''))
        | Some f \<Rightarrow>
            try_finally (home1_processing ev f (home1_temp_path ev f))
              (cleanup_temp ev (home1_temp_path ev f)))"
    by (rule keeps_home1_upload) simp
  ultimately have "vector_db_initialized (session_after
      ((case uploaded_file ev of
          None \<Rightarrow> emit (StInfo (ascii ''Please upload a PDF file to start the conversation.''))
        | Some f \<Rightarrow>
            try_finally (home1_processing ev f (home1_temp_path ev f))
              (cleanup_temp ev (home1_temp_path ev f))) ?s)) = None"
    by (simp add: keeps_def)
  then show ?thesis
    using assms(2) by (simp add: home1_page_def run_pseq run_home1_prelude_present)
qed

lemma successful_adds_home_page:
  "length (filter (\<lambda>e. \<exists>p. e = Ext (RagToolAdd p) None) (events (home_page ev s)))
     \<le> (if flag_set s then 0 else if flag_set (session_after (home_page ev s)) then 1 else 0)"
proof -
  let ?ok = "\<lambda>e. \<exists>p. e = Ext (RagToolAdd p) None"
  let ?run = "events (home_page ev s)"
  have sub: "filter ?ok ?run = filter ?ok (filter is_add ?run)"
    by (auto simp: is_add_def intro: filter_cong)
  have le1: "length (filter ?ok ?run) \<le> 1"
    using home_page_adds_le_1 [of ev s] length_filter_le [of ?ok "filter is_add ?run"]
    unfolding sub by linarith
  show ?thesis
  proof (cases "flag_set s")
    case True
    then show ?thesis
      using home_page_no_add_when_set [of s ev] sub by simp
  next
    case False
    show ?thesis
    proof (cases "filter ?ok ?run = []")
      case True
      then show ?thesis by simp
    next
      case ne: False
      then obtain e where "e \<in> set (filter ?ok ?run)"
        by (cases "filter ?ok ?run") auto
      then obtain p where "Ext (RagToolAdd p) None \<in> set ?run" by auto
      then have "flag_set (session_after (home_page ev s))"
        by (rule home_page_flag_after_add)
      then show ?thesis using False le1 by simp
    qed
  qed
qed

lemma session_runs_successful_adds:
  "length (filter (\<lambda>e. \<exists>p. e = Ext (RagToolAdd p) None) (session_runs rs s))
     \<le> (if flag_set s then 0 else 1) + (if initialized s = None then 1 else 0)"
proof (induction rs s rule: session_runs.induct)
  case (1 s)
  show ?case by simp
next
  case (2 ev rs s)
  note IH = this
  let ?ok = "\<lambda>e. \<exists>p. e = Ext (RagToolAdd p) None"
  let ?s = "session_after (home_page ev s)"
  have i: "initialized ?s = initialized s"
    using keepsD [OF keeps_initialized_home_page [of "initialized s"]] by simp
  have f: "flag_set s \<longrightarrow> flag_set ?s"
    using keepsD [OF keeps_flag_home_page] by blast
  have "length (filter ?ok (events (home_page ev s)))
          + ((if flag_set ?s then 0 else 1) + (if initialized ?s = None then 1 else 0))
        \<le> (if flag_set s then 0 else 1) + (if initialized s = None then 1 else (0::nat))"
    using successful_adds_home_page [of ev s] f unfolding i
    by (cases "flag_set s"; cases "flag_set ?s"; simp)
  then have "length (filter ?ok (events (home_page ev s))) + length (filter ?ok (session_runs rs ?s))
        \<le> (if flag_set s then 0 else 1) + (if initialized s = None then 1 else (0::nat))"
    using IH by linarith
  then show ?case by simp
next
  case (3 ev rs s)
  note IH = this
  let ?ok = "\<lambda>e. \<exists>p. e = Ext (RagToolAdd p) None"
  let ?s = "session_after (home1_page ev s)"
  have none: "filter ?ok (events (home1_page ev s)) = []"
    using emits_no_add_home1_page [of ev]
    by (auto simp: emits_def filter_empty_conv is_add_def)
  have k: "initialized s \<noteq> None \<and> flag_set s \<longrightarrow> flag_set ?s"
    using keepsD [OF keeps_flag_home1_page, of s ev] by blast
  have j: "initialized s \<noteq> None \<longrightarrow> initialized ?s \<noteq> None"
    using keepsD [OF keeps_initialized_home1_page, of s ev] by blast
  have "(if flag_set ?s then 0 else 1) + (if initialized ?s = None then 1 else 0)
        \<le> (if flag_set s then 0 else 1) + (if initialized s = None then 1 else (0::nat))"
  proof (cases "initialized s = None")
    case False
    then show ?thesis using k j by (cases "flag_set s"; simp)
  next
    case True
    from home1_page_initialized [of ev s] show ?thesis
    proof
      assume "?s = s"
      then show ?thesis by simp
    next
      assume "initialized ?s \<noteq> None"
      then show ?thesis using True by (cases "flag_set s"; cases "flag_set ?s"; auto)
    qed
  qed
  then have "length (filter ?ok (session_runs rs ?s))
        \<le> (if flag_set s then 0 else 1) + (if initialized s = None then 1 else (0::nat))"
    using IH by linarith
  then show ?case using none by simp
qed


lemma upload_env_fields:
  "api_key upload_env = Some (ascii ''sk-test'')"
  "uploaded_file upload_env = Some \<lparr>file_name = ascii ''a.pdf'', file_bytes = [37, 80, 68, 70]\<rparr>"
  "user_input upload_env = None"
  "raises upload_env = (\<lambda>_. None)"
  "path_exists upload_env = (\<lambda>_. True)"
  by (simp_all add: upload_env_def example_env_def)

lemma upload_home_run_fresh:
  "filter (\<lambda>e. \<exists>p. e = Ext (RagToolAdd p) None) (events (home_page upload_env fresh_session)) =
     [Ext (RagToolAdd (ascii ''temp_a.pdf'')) None]"
  "session_after (home_page upload_env fresh_session) =
     \<lparr>initialized = None, vector_db_initialized = Some True, messages = Some []\<rparr>"
  by (simp_all add: home_stage_defs home_temp_path_def run_simps upload_env_fields
        init_messages_def show_history_def key_missing_def run_cleanup_temp fresh_session_def
        ascii_def)

lemma upload_home1_run:
  "filter (\<lambda>e. \<exists>p. e = Ext (RagToolAdd p) None)
     (events (home1_page upload_env
        \<lparr>initialized = None, vector_db_initialized = Some True, messages = Some []\<rparr>)) = []"
  "session_after (home1_page upload_env
     \<lparr>initialized = None, vector_db_initialized = Some True, messages = Some []\<rparr>) =
     \<lparr>initialized = Some False, vector_db_initialized = None, messages = Some []\<rparr>"
  by (simp_all add: home1_stage_defs home1_temp_path_def run_simps upload_env_fields
        init_messages_def show_history_def key_missing_def run_cleanup_temp ascii_def)

lemma upload_home_run_again:
  "filter (\<lambda>e. \<exists>p. e = Ext (RagToolAdd p) None)
     (events (home_page upload_env
        \<lparr>initialized = Some False, vector_db_initialized = None, messages = Some []\<rparr>)) =
     [Ext (RagToolAdd (ascii ''temp_a.pdf'')) None]"
  by (simp add: home_stage_defs home_temp_path_def run_simps upload_env_fields
        init_messages_def show_history_def key_missing_def run_cleanup_temp ascii_def)

text \<open>
  C8, as stated, fails for a session that also shows home1.py: the first run of home1.py
  in a session (the key \<^verbatim>\<open>initialized\<close> is not yet in the session state) deletes
  \<^verbatim>\<open>vector_db_initialized\<close>. A run of home.py, then one of home1.py, then one of home.py
  again, all with the same PDF uploaded, call \<^verbatim>\<open>rag_tool.add\<close> successfully twice.
\<close>

theorem reindex_counterexample:
  "initialized fresh_session = None \<and>
   filter (\<lambda>e. \<exists>p. e = Ext (RagToolAdd p) None)
     (session_runs [RunHome upload_env, RunHome1 upload_env, RunHome upload_env] fresh_session) =
     [Ext (RagToolAdd (ascii ''temp_a.pdf'')) None, Ext (RagToolAdd (ascii ''temp_a.pdf'')) None] \<and>
   vector_db_initialized (session_after (home_page upload_env fresh_session)) = Some True \<and>
   vector_db_initialized
     (session_after (home1_page upload_env (session_after (home_page upload_env fresh_session)))) = None"
  by (simp add: upload_home_run_fresh upload_home1_run upload_home_run_again)
    (simp add: fresh_session_def)


lemma list_all_home_runs: "list_all is_home_run (map RunHome evs)"
  by (induction evs) simp_all

text \<open>
  C8, amended. On home.py a run calls \<^verbatim>\<open>rag_tool.add\<close> only when it starts with the
  session flag \<^verbatim>\<open>vector_db_initialized\<close> absent or False, and a run in which the add
  succeeds leaves the flag True; so in any sequence of reruns of home.py alone, no call of
  \<^verbatim>\<open>rag_tool.add\<close> follows a successful one. A run of home1.py that starts without the
  key \<^verbatim>\<open>initialized\<close> (and with the API key present) leaves the flag absent. In a session
  of runs of both pages that starts with \<^verbatim>\<open>initialized\<close> present, no call of
  \<^verbatim>\<open>rag_tool.add\<close> follows a successful one; and any session has at most two successful
  calls of \<^verbatim>\<open>rag_tool.add\<close>.
\<close>

theorem index_once_per_session:
  "(\<forall>p r. Ext (RagToolAdd p) r \<in> set (events (home_page ev s)) \<longrightarrow>
       vector_db_initialized s \<noteq> Some True) \<and>
   (\<forall>p. Ext (RagToolAdd p) None \<in> set (events (home_page ev s)) \<longrightarrow>
       vector_db_initialized (session_after (home_page ev s)) = Some True) \<and>
   (\<forall>a p b. session_runs (map RunHome evs) s = a @ Ext (RagToolAdd p) None # b \<longrightarrow>
       (\<forall>q r. Ext (RagToolAdd q) r \<notin> set b)) \<and>
   (initialized s = None \<and> \<not> key_missing (api_key ev) \<longrightarrow>
       vector_db_initialized (session_after (home1_page ev s)) = None) \<and>
   (\<forall>a p b. initialized s \<noteq> None \<and> session_runs rs s = a @ Ext (RagToolAdd p) None # b \<longrightarrow>
       (\<forall>q r. Ext (RagToolAdd q) r \<notin> set b)) \<and>
   length (filter (\<lambda>e. \<exists>p. e = Ext (RagToolAdd p) None) (session_runs rs s)) \<le> 2"
proof -
  have c1: "\<forall>p r. Ext (RagToolAdd p) r \<in> set (events (home_page ev s)) \<longrightarrow>
       vector_db_initialized s \<noteq> Some True"
    using home_page_add_needs_unset by blast
  have c2: "\<forall>p. Ext (RagToolAdd p) None \<in> set (events (home_page ev s)) \<longrightarrow>
       vector_db_initialized (session_after (home_page ev s)) = Some True"
    using home_page_flag_after_add by (simp add: flag_set_def)
  have c3: "\<forall>a p b. session_runs (map RunHome evs) s = a @ Ext (RagToolAdd p) None # b \<longrightarrow>
       (\<forall>q r. Ext (RagToolAdd q) r \<notin> set b)"
  proof (intro allI impI)
    fix a p b q r
    assume eq: "session_runs (map RunHome evs) s = a @ Ext (RagToolAdd p) None # b"
    have "filter is_add b = []"
      by (rule session_runs_add_once [OF eq disjI2 [OF list_all_home_runs]])
    then show "Ext (RagToolAdd q) r \<notin> set b"
      by (auto simp: filter_empty_conv is_add_def)
  qed
  have c4: "initialized s = None \<and> \<not> key_missing (api_key ev) \<longrightarrow>
       vector_db_initialized (session_after (home1_page ev s)) = None"
    using home1_page_deletes_flag by blast
  have c5: "\<forall>a p b. initialized s \<noteq> None \<and> session_runs rs s = a @ Ext (RagToolAdd p) None # b \<longrightarrow>
       (\<forall>q r. Ext (RagToolAdd q) r \<notin> set b)"
  proof (intro allI impI)
    fix a p b q r
    assume "initialized s \<noteq> None \<and> session_runs rs s = a @ Ext (RagToolAdd p) None # b"
    then have i: "initialized s \<noteq> None"
      and eq: "session_runs rs s = a @ Ext (RagToolAdd p) None # b"
      by blast+
    have "filter is_add b = []"
      by (rule session_runs_add_once [OF eq disjI1 [OF i]])
    then show "Ext (RagToolAdd q) r \<notin> set b"
      by (auto simp: filter_empty_conv is_add_def)
  qed
  have c6: "length (filter (\<lambda>e. \<exists>p. e = Ext (RagToolAdd p) None) (session_runs rs s)) \<le> 2"
    using session_runs_successful_adds [of rs s] by (simp split: if_splits)
  show ?thesis
    using c1 c2 c3 c4 c5 c6 by (intro conjI)
qed

lemma example_home_add:
  "Ext (RagToolAdd (ascii ''temp_'' @ ascii ''a.pdf'')) None
     \<in> set (events (home_page example_env fresh_session))"
  by (simp add: home_stage_defs home_temp_path_def run_simps example_env_fields
      init_messages_def show_history_def append_message_def key_missing_def fresh_session_def
      run_cleanup_temp ascii_def)

lemma example_home_add_visited:
  "Ext (RagToolAdd (ascii ''temp_'' @ ascii ''a.pdf'')) None
     \<in> set (events (home_page example_env
          \<lparr>initialized = Some False, vector_db_initialized = None, messages = None\<rparr>))"
  by (simp add: home_stage_defs home_temp_path_def run_simps example_env_fields
      init_messages_def show_history_def append_message_def key_missing_def
      run_cleanup_temp ascii_def)

theorem index_once_per_session_witness:
  "Ext (RagToolAdd (ascii ''temp_'' @ ascii ''a.pdf'')) None
     \<in> set (events (home_page example_env fresh_session)) \<and>
   vector_db_initialized fresh_session \<noteq> Some True \<and>
   vector_db_initialized (session_after (home_page example_env fresh_session)) = Some True \<and>
   (\<exists>a b. session_runs (map RunHome [example_env, example_env]) fresh_session
            = a @ Ext (RagToolAdd (ascii ''temp_'' @ ascii ''a.pdf'')) None # b \<and>
          Ext (RagToolAdd (ascii ''temp_'' @ ascii ''a.pdf'')) None \<notin> set b) \<and>
   initialized fresh_session = None \<and> \<not> key_missing (api_key example_env) \<and>
   vector_db_initialized (session_after (home1_page example_env fresh_session)) = None \<and>
   (\<exists>a b. session_runs [RunHome example_env, RunHome1 example_env, RunHome example_env]
            \<lparr>initialized = Some False, vector_db_initialized = None, messages = None\<rparr>
            = a @ Ext (RagToolAdd (ascii ''temp_'' @ ascii ''a.pdf'')) None # b \<and>
          Ext (RagToolAdd (ascii ''temp_'' @ ascii ''a.pdf'')) None \<notin> set b)"
proof -
  let ?add = "Ext (RagToolAdd (ascii ''temp_'' @ ascii ''a.pdf'')) None"
  let ?v = "\<lparr>initialized = Some False, vector_db_initialized = None, messages = None\<rparr>"
  let ?rs = "[RunHome example_env, RunHome1 example_env, RunHome example_env]"
  have h: "?add \<in> set (events (home_page example_env fresh_session))"
    by (rule example_home_add)
  then obtain a b1 where "events (home_page example_env fresh_session) = a @ ?add # b1"
    by (auto simp: in_set_conv_decomp)
  then have split: "session_runs (map RunHome [example_env, example_env]) fresh_session =
      a @ ?add # (b1 @ events (home_page example_env (session_after (home_page example_env fresh_session))))"
    by simp
  have hv: "?add \<in> set (events (home_page example_env ?v))"
    by (rule example_home_add_visited)
  then obtain a' b' where "events (home_page example_env ?v) = a' @ ?add # b'"
    by (auto simp: in_set_conv_decomp)
  then have "\<exists>b. session_runs ?rs ?v = a' @ ?add # b"
    by simp
  then obtain b2 where split': "session_runs ?rs ?v = a' @ ?add # b2" ..
  have k: "\<not> key_missing (api_key example_env)"
    by (simp add: example_env_fields key_missing_def ascii_def)
  have i0: "initialized fresh_session = None"
    by (simp add: fresh_session_def)
  note inst = index_once_per_session [of example_env fresh_session "[example_env, example_env]" ?rs]
  note inst' = index_once_per_session [of example_env ?v "[]" ?rs]
  have "vector_db_initialized fresh_session \<noteq> Some True"
    and "vector_db_initialized (session_after (home_page example_env fresh_session)) = Some True"
    and "vector_db_initialized (session_after (home1_page example_env fresh_session)) = None"
    using inst h k i0 by blast+
  moreover have "?add \<notin> set (b1 @ events (home_page example_env (session_after (home_page example_env fresh_session))))"
    using inst split by blast
  moreover have "?add \<notin> set b2"
    using inst' split' by auto
  ultimately show ?thesis using h split split' k i0 by blast
qed


section \<open>Errors followed by a message\<close>

lemma surfaced_append: "surfaced H a \<Longrightarrow> surfaced H b \<Longrightarrow> surfaced H (a @ b)"
proof (induction H a rule: surfaced.induct)
  case (1 H)
  then show ?case by simp
next
  case (2 H c e tr)
  then show ?case by (cases tr) auto
next
  case (3 H c tr)
  then show ?case by simp
next
  case (4 H u tr)
  then show ?case by simp
qed

lemma surfaced_append_message:
  "surfaced H (a @ [Ui (StError [])]) \<Longrightarrow> is_message x \<Longrightarrow> surfaced H (x # b) \<Longrightarrow>
   surfaced H (a @ x # b)"
proof (induction H a rule: surfaced.induct)
  case (1 H)
  then show ?case by simp
next
  case (2 H c e tr)
  then show ?case by (cases tr) auto
next
  case (3 H c tr)
  then show ?case by simp
next
  case (4 H u tr)
  then show ?case by simp
qed

lemma surfaced_pend: "surfaced H a \<Longrightarrow> pend H a"
  unfolding pend_def by (rule surfaced_append) simp_all

lemma pend_append: "surfaced H a \<Longrightarrow> pend H b \<Longrightarrow> pend H (a @ b)"
  unfolding pend_def using surfaced_append [of H a "b @ [Ui (StError [])]"] by simp

lemma surfaced_append_left: "surfaced H (a @ b) \<Longrightarrow> surfaced H b"
proof (induction H a rule: surfaced.induct)
  case (1 H)
  then show ?case by simp
next
  case (2 H c e tr)
  then show ?case by simp
next
  case (3 H c tr)
  then show ?case by simp
next
  case (4 H u tr)
  then show ?case by simp
qed


lemma closedD: "closed H m \<Longrightarrow> surfaced H (events (m s))"
  by (simp add: closed_def)

lemma closed_pending: "closed H m \<Longrightarrow> pending H C m"
  by (simp add: closed_def pending_def surfaced_pend)

lemma closed_pret [closed_intros]: "closed H (pret x)"
  by (simp add: closed_def)

lemma closed_praise [closed_intros]: "closed H (praise e)"
  by (simp add: closed_def)

lemma closed_emit [closed_intros]: "closed H (emit u)"
  by (simp add: closed_def)

lemma closed_st_stop [closed_intros]: "closed H st_stop"
  by (simp add: closed_def)

lemma closed_get_session [closed_intros]: "closed H get_session"
  by (simp add: closed_def)

lemma closed_modify_session [closed_intros]: "closed H (modify_session g)"
  by (simp add: closed_def)

lemma closed_ext [closed_intros]: "(\<And>e. \<not> H c e) \<Longrightarrow> closed H (ext ev c)"
  by (cases "raises ev c") (simp_all add: closed_def)

lemma closed_display_history [closed_intros]: "closed H (display_history ms)"
proof -
  have "surfaced H (map (\<lambda>(r, c). Ui (StChatMessage r c)) ms)"
    by (induction ms) auto
  then show ?thesis by (simp add: closed_def)
qed

lemma closed_pbind [closed_intros]:
  assumes "closed H m" and "\<And>x. closed H (f x)"
  shows "closed H (pbind m f)"
  unfolding closed_def
proof
  fix s
  show "surfaced H (events (pbind m f s))"
    using closedD [OF assms(1), of s] closedD [OF assms(2)]
    by (cases "outcome (m s)") (simp_all add: run_pbind surfaced_append)
qed

lemma closed_pseq [closed_intros]: "closed H m \<Longrightarrow> closed H k \<Longrightarrow> closed H (pseq m k)"
  by (simp add: pseq_def closed_pbind)

lemma closed_if [closed_intros]:
  "(b \<Longrightarrow> closed H m) \<Longrightarrow> (\<not> b \<Longrightarrow> closed H k) \<Longrightarrow> closed H (if b then m else k)"
  by simp

lemma closed_case_option [closed_intros]:
  "(x = None \<Longrightarrow> closed H m) \<Longrightarrow> (\<And>v. x = Some v \<Longrightarrow> closed H (k v)) \<Longrightarrow>
   closed H (case x of None \<Rightarrow> m | Some v \<Rightarrow> k v)"
  by (cases x) simp_all

lemma closed_try_finally [closed_intros]:
  "closed H b \<Longrightarrow> closed H c \<Longrightarrow> closed H (try_finally b c)"
  by (simp add: closed_def run_try_finally surfaced_append)

lemma starts_with_messageD:
  "starts_with_message m \<Longrightarrow> \<exists>x tr. events (m s) = x # tr \<and> is_message x"
  by (simp add: starts_with_message_def)

lemma starts_with_message_emit: "is_message (Ui u) \<Longrightarrow> starts_with_message (emit u)"
  by (simp add: starts_with_message_def)

lemma starts_with_message_pseq:
  "is_message (Ui u) \<Longrightarrow> starts_with_message (pseq (emit u) k)"
  by (simp add: starts_with_message_def run_pseq)

lemma closed_try_except:
  assumes b: "pending H C b"
    and c: "\<And>e. C e \<Longrightarrow> catches e"
    and h: "\<And>e. closed H (h e)"
    and m: "\<And>e. starts_with_message (h e)"
  shows "closed H (try_except b catches h)"
  unfolding closed_def
proof
  fix s
  let ?tr = "events (b s)"
  have p: "pend H ?tr" using b by (simp add: pending_def)
  show "surfaced H (events (try_except b catches h s))"
  proof (cases "surfaced H ?tr")
    case True
    show ?thesis
    proof (cases "outcome (b s)")
      case (Inr x)
      then show ?thesis using True by (simp add: run_try_except)
    next
      case (Inl e)
      have "surfaced H (events (h e (session_after (b s))))" by (rule closedD [OF h])
      then have "surfaced H (?tr @ events (h e (session_after (b s))))"
        using True by (intro surfaced_append)
      then show ?thesis using Inl True by (simp add: run_try_except)
    qed
  next
    case False
    then have "\<exists>e. outcome (b s) = Inl e \<and> C e"
      using b unfolding pending_def by blast
    then obtain e where e: "outcome (b s) = Inl e" "C e" by blast
    then have caught: "catches e" using c by simp
    have "\<exists>x tr. events (h e (session_after (b s))) = x # tr \<and> is_message x"
      by (rule starts_with_messageD [OF m])
    then obtain x tr where x: "events (h e (session_after (b s))) = x # tr" "is_message x"
      by blast
    have "surfaced H (events (h e (session_after (b s))))" by (rule closedD [OF h])
    then have xs: "surfaced H (x # tr)" unfolding x(1) .
    have "surfaced H (?tr @ [Ui (StError [])])" using p by (simp add: pend_def)
    then have "surfaced H (?tr @ x # tr)"
      using x(2) xs by (rule surfaced_append_message)
    then show ?thesis using e(1) caught by (simp add: run_try_except x(1))
  qed
qed

lemma pending_pret [pending_intros]: "pending H C (pret x)"
  by (simp add: closed_pending closed_intros)

lemma pending_emit [pending_intros]: "pending H C (emit u)"
  by (simp add: closed_pending closed_intros)

lemma pending_modify_session [pending_intros]: "pending H C (modify_session g)"
  by (simp add: closed_pending closed_intros)

lemma pending_ext [pending_intros]: "(\<And>e. H c e \<Longrightarrow> C e) \<Longrightarrow> pending H C (ext ev c)"
  by (cases "raises ev c") (auto simp: pending_def pend_def)

lemma pending_pbind [pending_intros]:
  assumes m: "pending H C m" and f: "\<And>x. pending H C (f x)"
  shows "pending H C (pbind m f)"
  unfolding pending_def
proof (intro allI)
  fix s
  let ?a = "events (m s)"
  show "pend H (events (pbind m f s)) \<and>
        (\<not> surfaced H (events (pbind m f s)) \<longrightarrow> (\<exists>e. outcome (pbind m f s) = Inl e \<and> C e))"
  proof (cases "outcome (m s)")
    case (Inl e)
    have "pend H ?a" and "\<not> surfaced H ?a \<longrightarrow> (\<exists>e'. outcome (m s) = Inl e' \<and> C e')"
      using m by (simp_all add: pending_def)
    then show ?thesis using Inl by (simp add: run_pbind)
  next
    case (Inr x)
    then have a: "surfaced H ?a" using m by (auto simp: pending_def)
    let ?b = "events (f x (session_after (m s)))"
    have pb: "pend H ?b"
      and ob: "\<not> surfaced H ?b \<longrightarrow> (\<exists>e. outcome (f x (session_after (m s))) = Inl e \<and> C e)"
      using f [of x] by (simp_all add: pending_def)
    have "\<not> surfaced H (?a @ ?b) \<longrightarrow> \<not> surfaced H ?b"
      using a surfaced_append by blast
    then show ?thesis
      using Inr a pb ob by (simp add: run_pbind pend_append)
  qed
qed

lemma pending_pseq [pending_intros]:
  "pending H C m \<Longrightarrow> pending H C k \<Longrightarrow> pending H C (pseq m k)"
  by (simp add: pseq_def pending_pbind)

lemma pending_if [pending_intros]:
  "(b \<Longrightarrow> pending H C m) \<Longrightarrow> (\<not> b \<Longrightarrow> pending H C k) \<Longrightarrow> pending H C (if b then m else k)"
  by simp

lemma pending_try_except_silent:
  assumes b: "closed H b" and h: "\<And>e. pending H C (h e)"
  shows "pending H C (try_except b catches h)"
  unfolding pending_def
proof (intro allI)
  fix s
  have a: "surfaced H (events (b s))" using b by (simp add: closed_def)
  show "pend H (events (try_except b catches h s)) \<and>
        (\<not> surfaced H (events (try_except b catches h s)) \<longrightarrow>
           (\<exists>e. outcome (try_except b catches h s) = Inl e \<and> C e))"
  proof (cases "outcome (b s)")
    case (Inr x)
    then show ?thesis using a by (simp add: run_try_except surfaced_pend)
  next
    case (Inl e)
    show ?thesis
    proof (cases "catches e")
      case False
      then show ?thesis using Inl a by (simp add: run_try_except surfaced_pend)
    next
      case True
      let ?b = "events (h e (session_after (b s)))"
      have pb: "pend H ?b"
        and ob: "\<not> surfaced H ?b \<longrightarrow> (\<exists>e'. outcome (h e (session_after (b s))) = Inl e' \<and> C e')"
        using h [of e] by (simp_all add: pending_def)
      have "\<not> surfaced H (events (b s) @ ?b) \<longrightarrow> \<not> surfaced H ?b"
        using a surfaced_append by blast
      then show ?thesis
        using Inl True a pb ob by (simp add: run_try_except pend_append)
    qed
  qed
qed


lemma closed_try_except_plain:
  assumes b: "closed H b" and h: "\<And>e. closed H (h e)"
  shows "closed H (try_except b catches h)"
  unfolding closed_def
proof
  fix s
  have a: "surfaced H (events (b s))" by (rule closedD [OF b])
  show "surfaced H (events (try_except b catches h s))"
  proof (cases "outcome (b s)")
    case (Inr x)
    then show ?thesis using a by (simp add: run_try_except)
  next
    case (Inl e)
    have "surfaced H (events (h e (session_after (b s))))" by (rule closedD [OF h])
    then have "surfaced H (events (b s) @ events (h e (session_after (b s))))"
      using a by (intro surfaced_append)
    then show ?thesis using Inl a by (simp add: run_try_except)
  qed
qed

lemma closed_init_messages [closed_intros]: "closed H init_messages"
  unfolding init_messages_def by (intro closed_intros)

lemma closed_append_message [closed_intros]: "closed H (append_message r c)"
  unfolding append_message_def by (intro closed_intros)

lemma closed_show_history [closed_intros]: "closed H show_history"
  unfolding show_history_def by (intro closed_intros)

lemma pending_append_message [pending_intros]: "pending H C (append_message r c)"
  by (rule closed_pending) (rule closed_append_message)

lemma closed_cleanup_temp:
  "(\<And>p e. \<not> H (FileRemove p) e) \<Longrightarrow> closed H (cleanup_temp ev p)"
  unfolding cleanup_temp_def
  by (intro closed_if closed_try_except_plain closed_ext closed_pret) simp

lemma closed_save_upload:
  "(\<And>p e. \<not> H (FileOpen p) e) \<Longrightarrow> (\<And>p b e. \<not> H (FileWrite p b) e) \<Longrightarrow>
   closed H (save_upload ev f tp)"
  unfolding save_upload_def by (intro closed_intros) simp_all

section \<open>home1.py: which errors are followed by a message\<close>

lemma home1_surfaces_simps [simp]:
  "home1_surfaces (FileOpen p) e = False"
  "home1_surfaces (FileWrite p b) e = False"
  "home1_surfaces (PdfLoaderInit p) e = False"
  "home1_surfaces PdfLoaderLoad e = False"
  "home1_surfaces TextSplitterInit e = False"
  "home1_surfaces (SplitDocuments ds) e = False"
  "home1_surfaces AsRetriever e = False"
  "home1_surfaces (AgentInit t) e = False"
  "home1_surfaces (SimilaritySearch q k) e = False"
  "home1_surfaces (FileRemove p) e = False"
  "home1_surfaces EmbeddingsInit e = is_Exception e"
  "home1_surfaces (MakeDirs p) e = is_Exception e"
  "home1_surfaces (FaissFromDocuments ds) e = is_Exception e"
  "home1_surfaces (RagToolInit p) e = is_Exception e"
  "home1_surfaces (GetRelevantDocuments q) e = is_Exception e"
  "home1_surfaces (SimilaritySearchWithScore q k) e = is_Exception e"
  "home1_surfaces (TaskInit d eo) e = is_Exception e"
  "home1_surfaces CrewInit e = is_Exception e"
  "home1_surfaces CrewKickoff e = is_Exception e"
  by (simp_all add: home1_surfaces_def)

lemma closed_home1_prelude: "closed home1_surfaces (home1_prelude ev)"
  unfolding home1_prelude_def by (intro closed_intros)

lemma closed_home1_load_documents: "closed home1_surfaces (home1_load_documents ev tp)"
  unfolding home1_load_documents_def by (intro closed_intros) simp_all

lemma closed_home1_embeddings: "closed home1_surfaces (home1_embeddings ev)"
  unfolding home1_embeddings_def
  by (intro closed_try_except [where C = is_Exception] pending_intros closed_intros
      starts_with_message_pseq) simp_all

lemma closed_home1_vectorstore: "closed home1_surfaces (home1_vectorstore ev p docs)"
  unfolding home1_vectorstore_def
  by (intro closed_try_except [where C = is_Exception] pending_intros closed_intros
      starts_with_message_pseq) simp_all

lemma closed_home1_rag_tool: "closed home1_surfaces (home1_rag_tool ev p)"
  unfolding home1_rag_tool_def
  by (intro closed_try_except [where C = is_Exception] pending_intros closed_intros
      starts_with_message_pseq) simp_all

lemma pending_home1_retrieve: "pending home1_surfaces is_Exception (home1_retrieve ev q)"
  unfolding home1_retrieve_def
  by (intro pending_if pending_pseq pending_ext pending_pret pending_try_except_silent
      closed_pseq closed_ext closed_pret) simp_all

lemma pending_home1_run_agent: "pending home1_surfaces is_Exception (home1_run_agent ev f q docs)"
  unfolding home1_run_agent_def by (intro pending_intros) simp_all

lemma closed_home1_answer: "closed home1_surfaces (home1_answer ev f q)"
  unfolding home1_answer_def
  by (intro closed_pseq closed_emit closed_append_message
      closed_try_except [where C = is_Exception] pending_pbind pending_home1_retrieve
      pending_home1_run_agent starts_with_message_emit) simp_all

lemma closed_home1_chat: "closed home1_surfaces (home1_chat ev f t)"
  unfolding home1_chat_def by (intro closed_intros closed_home1_answer) simp_all

lemma closed_home1_processing: "closed home1_surfaces (home1_processing ev f tp)"
  unfolding home1_processing_def
  by (intro closed_pseq closed_pbind closed_save_upload closed_home1_load_documents
      closed_home1_embeddings closed_home1_vectorstore closed_home1_rag_tool closed_home1_chat
      closed_ext) simp_all

lemma closed_home1_page: "closed home1_surfaces (home1_page ev)"
  unfolding home1_page_def
  by (intro closed_pseq closed_case_option closed_try_finally closed_emit closed_home1_prelude
      closed_home1_processing closed_cleanup_temp) simp_all

section \<open>home.py: which errors are followed by a message\<close>

lemma home_surfaces_simps [simp]:
  "home_surfaces (FileOpen p) e = False"
  "home_surfaces (FileWrite p b) e = False"
  "home_surfaces (MakeDirs p) e = False"
  "home_surfaces (AgentInit t) e = False"
  "home_surfaces (FileRemove p) e = False"
  "home_surfaces EmbeddingsInit e = is_DefaultCredentialsError e"
  "home_surfaces ChatModelInit e = is_DefaultCredentialsError e"
  "home_surfaces (RagToolInit p) e = is_Exception e"
  "home_surfaces (RagToolAdd p) e = is_Exception e"
  "home_surfaces (TaskInit d eo) e = is_Exception e"
  "home_surfaces CrewInit e = is_Exception e"
  "home_surfaces CrewKickoff e = is_Exception e"
  by (simp_all add: home_surfaces_def)

lemma closed_home_prelude: "closed home_surfaces (home_prelude ev)"
  unfolding home_prelude_def by (intro closed_intros)

lemma closed_home_credentials: "closed home_surfaces (home_credentials ev)"
  unfolding home_credentials_def
  by (intro closed_try_except [where C = is_DefaultCredentialsError] pending_intros closed_intros
      starts_with_message_pseq) simp_all

lemma closed_home_rag_tool: "closed home_surfaces (home_rag_tool ev)"
  unfolding home_rag_tool_def
  by (intro closed_pseq closed_modify_session closed_ext
      closed_try_except [where C = is_Exception] pending_ext closed_emit closed_st_stop
      starts_with_message_pseq) simp_all

lemma closed_home_index: "closed home_surfaces (home_index ev tp)"
  unfolding home_index_def
  by (intro closed_pbind closed_get_session closed_case_option closed_praise closed_if
      closed_pseq closed_emit closed_pret closed_st_stop
      closed_try_except [where C = is_Exception] pending_pseq pending_ext pending_modify_session
      starts_with_message_pseq) simp_all

lemma closed_home_answer: "closed home_surfaces (home_answer ev f q)"
  unfolding home_answer_def home_run_agent_def
  by (intro closed_pseq closed_emit closed_append_message
      closed_try_except [where C = is_Exception] pending_intros starts_with_message_emit)
    simp_all

lemma closed_home_chat: "closed home_surfaces (home_chat ev f)"
  unfolding home_chat_def by (intro closed_intros closed_home_answer) simp_all

lemma closed_home_processing: "closed home_surfaces (home_processing ev f tp)"
  unfolding home_processing_def
  by (intro closed_pseq closed_save_upload closed_home_credentials closed_home_rag_tool
      closed_home_index closed_home_chat) simp_all

lemma closed_home_page: "closed home_surfaces (home_page ev)"
  unfolding home_page_def
  by (intro closed_pseq closed_case_option closed_try_finally closed_emit closed_home_prelude
      closed_home_processing closed_cleanup_temp) simp_all

section \<open>External calls in script order\<close>

lemma calls_made_append [simp]: "calls_made (a @ b) = calls_made a @ calls_made b"
  by (induction a rule: calls_made.induct) simp_all

lemma sites_append [simp]: "sites (a @ b) = sites a @ sites b"
  by (simp add: sites_def)

lemma sites_simps [simp]:
  "sites [] = []" "sites (Ui u # tr) = sites tr" "sites (Ext c r # tr) = call_site c # sites tr"
  by (simp_all add: sites_def)

lemma silentD: "silent m \<Longrightarrow> sites (events (m s)) = []"
  by (simp add: silent_def sites_def)

lemma silent_pret [silent_intros]: "silent (pret x)"
  by (simp add: silent_def)

lemma silent_praise [silent_intros]: "silent (praise e)"
  by (simp add: silent_def)

lemma silent_emit [silent_intros]: "silent (emit u)"
  by (simp add: silent_def)

lemma silent_st_stop [silent_intros]: "silent st_stop"
  by (simp add: silent_def)

lemma silent_get_session [silent_intros]: "silent get_session"
  by (simp add: silent_def)

lemma silent_modify_session [silent_intros]: "silent (modify_session g)"
  by (simp add: silent_def)

lemma silent_display_history [silent_intros]: "silent (display_history ms)"
proof -
  have "calls_made (map (\<lambda>(r, c). Ui (StChatMessage r c)) ms) = []"
    by (induction ms) auto
  then show ?thesis by (simp add: silent_def)
qed

lemma silent_pbind [silent_intros]: "silent m \<Longrightarrow> (\<And>x. silent (f x)) \<Longrightarrow> silent (pbind m f)"
  by (auto simp: silent_def run_pbind split: sum.splits)

lemma silent_pseq [silent_intros]: "silent m \<Longrightarrow> silent k \<Longrightarrow> silent (pseq m k)"
  by (simp add: pseq_def silent_pbind)

lemma silent_if [silent_intros]:
  "(b \<Longrightarrow> silent m) \<Longrightarrow> (\<not> b \<Longrightarrow> silent k) \<Longrightarrow> silent (if b then m else k)"
  by simp

lemma silent_case_option [silent_intros]:
  "(x = None \<Longrightarrow> silent m) \<Longrightarrow> (\<And>v. x = Some v \<Longrightarrow> silent (k v)) \<Longrightarrow>
   silent (case x of None \<Rightarrow> m | Some v \<Rightarrow> k v)"
  by (cases x) simp_all

lemma silent_init_messages [silent_intros]: "silent init_messages"
  unfolding init_messages_def by (intro silent_intros)

lemma silent_append_message [silent_intros]: "silent (append_message r c)"
  unfolding append_message_def by (intro silent_intros)

lemma silent_show_history [silent_intros]: "silent show_history"
  unfolding show_history_def by (intro silent_intros)

lemma orderedD:
  assumes "ordered lo hi m"
  shows "lo \<le> hi" and "sorted_wrt (<) (sites (events (m s)))"
    and "\<And>k. k \<in> set (sites (events (m s))) \<Longrightarrow> lo \<le> k \<and> k < hi"
  using assms by (simp_all add: ordered_def)

lemma ordered_silent: "silent m \<Longrightarrow> lo \<le> hi \<Longrightarrow> ordered lo hi m"
  by (simp add: ordered_def silentD)

lemma ordered_ext: "lo \<le> call_site c \<Longrightarrow> call_site c < hi \<Longrightarrow> ordered lo hi (ext ev c)"
  by (simp add: ordered_def)

lemma ordered_weaken: "ordered lo hi m \<Longrightarrow> lo' \<le> lo \<Longrightarrow> hi \<le> hi' \<Longrightarrow> ordered lo' hi' m"
  by (fastforce simp: ordered_def)

lemma sorted_sites_append:
  assumes "sorted_wrt (<) a" "sorted_wrt (<) b"
    and "\<And>k. k \<in> set a \<Longrightarrow> k < (mid :: nat)" and "\<And>k. k \<in> set b \<Longrightarrow> mid \<le> k"
  shows "sorted_wrt (<) (a @ b)"
  using assms by (fastforce simp: sorted_wrt_append)

lemma ordered_append:
  assumes lo: "lo \<le> mid" and hi: "mid \<le> hi"
    and a: "sorted_wrt (<) a" "\<And>k. k \<in> set a \<Longrightarrow> lo \<le> k \<and> k < mid"
    and b: "sorted_wrt (<) b" "\<And>k. k \<in> set b \<Longrightarrow> mid \<le> k \<and> k < hi"
  shows "sorted_wrt (<) (a @ b) \<and> (\<forall>k \<in> set (a @ b). lo \<le> k \<and> k < (hi :: nat))"
proof
  show "sorted_wrt (<) (a @ b)"
    using a b by (intro sorted_sites_append [where mid = mid]) auto
  show "\<forall>k \<in> set (a @ b). lo \<le> k \<and> k < hi"
  proof
    fix k assume "k \<in> set (a @ b)"
    then consider "k \<in> set a" | "k \<in> set b" by auto
    then show "lo \<le> k \<and> k < hi"
    proof cases
      case 1
      then have "lo \<le> k \<and> k < mid" by (rule a(2))
      then show ?thesis using hi by simp
    next
      case 2
      then have "mid \<le> k \<and> k < hi" by (rule b(2))
      then show ?thesis using lo by simp
    qed
  qed
qed

lemma ordered_pbind:
  assumes m: "ordered lo mid m" and f: "\<And>x. ordered mid hi (f x)"
  shows "ordered lo hi (pbind m f)"
  unfolding ordered_def
proof (rule conjI)
  have lo: "lo \<le> mid" by (rule orderedD(1) [OF m])
  have hi: "mid \<le> hi" by (rule orderedD(1) [OF f])
  show "lo \<le> hi" using lo hi by simp
  show "\<forall>s. sorted_wrt (<) (sites (events (pbind m f s))) \<and>
        (\<forall>k \<in> set (sites (events (pbind m f s))). lo \<le> k \<and> k < hi)"
  proof
    fix s
    let ?a = "sites (events (m s))"
    have a: "sorted_wrt (<) ?a" "\<And>k. k \<in> set ?a \<Longrightarrow> lo \<le> k \<and> k < mid"
      using orderedD(2,3) [OF m] by blast+
    show "sorted_wrt (<) (sites (events (pbind m f s))) \<and>
          (\<forall>k \<in> set (sites (events (pbind m f s))). lo \<le> k \<and> k < hi)"
    proof (cases "outcome (m s)")
      case (Inl e)
      have "sorted_wrt (<) (?a @ []) \<and> (\<forall>k \<in> set (?a @ []). lo \<le> k \<and> k < hi)"
        using lo hi a by (intro ordered_append [where mid = mid]) simp_all
      then show ?thesis using Inl by (simp add: run_pbind)
    next
      case (Inr x)
      let ?b = "sites (events (f x (session_after (m s))))"
      have b: "sorted_wrt (<) ?b" "\<And>k. k \<in> set ?b \<Longrightarrow> mid \<le> k \<and> k < hi"
        using orderedD(2,3) [OF f] by blast+
      have "sorted_wrt (<) (?a @ ?b) \<and> (\<forall>k \<in> set (?a @ ?b). lo \<le> k \<and> k < hi)"
        using lo hi a b by (intro ordered_append [where mid = mid]) simp_all
      then show ?thesis using Inr by (simp add: run_pbind)
    qed
  qed
qed

lemma ordered_pseq: "ordered lo mid m \<Longrightarrow> ordered mid hi k \<Longrightarrow> ordered lo hi (pseq m k)"
  by (simp add: pseq_def ordered_pbind)

lemma ordered_pseq_ext:
  "lo \<le> call_site c \<Longrightarrow> ordered (Suc (call_site c)) hi k \<Longrightarrow> ordered lo hi (pseq (ext ev c) k)"
  by (rule ordered_pseq [where mid = "Suc (call_site c)"]) (simp_all add: ordered_ext)

lemma ordered_pseq_silent:
  "silent m \<Longrightarrow> ordered lo hi k \<Longrightarrow> ordered lo hi (pseq m k)"
  by (rule ordered_pseq [where mid = lo]) (simp_all add: ordered_silent)

lemma ordered_try_except:
  assumes b: "ordered lo mid b" and h: "\<And>e. ordered mid hi (h e)"
  shows "ordered lo hi (try_except b c h)"
  unfolding ordered_def
proof (rule conjI)
  have lo: "lo \<le> mid" by (rule orderedD(1) [OF b])
  have hi: "mid \<le> hi" by (rule orderedD(1) [OF h])
  show "lo \<le> hi" using lo hi by simp
  show "\<forall>s. sorted_wrt (<) (sites (events (try_except b c h s))) \<and>
        (\<forall>k \<in> set (sites (events (try_except b c h s))). lo \<le> k \<and> k < hi)"
  proof
    fix s
    let ?a = "sites (events (b s))"
    have a: "sorted_wrt (<) ?a" "\<And>k. k \<in> set ?a \<Longrightarrow> lo \<le> k \<and> k < mid"
      using orderedD(2,3) [OF b] by blast+
    have plain: "sorted_wrt (<) (?a @ []) \<and> (\<forall>k \<in> set (?a @ []). lo \<le> k \<and> k < hi)"
      using lo hi a by (intro ordered_append [where mid = mid]) simp_all
    show "sorted_wrt (<) (sites (events (try_except b c h s))) \<and>
          (\<forall>k \<in> set (sites (events (try_except b c h s))). lo \<le> k \<and> k < hi)"
    proof (cases "outcome (b s)")
      case (Inr x)
      then show ?thesis using plain by (simp add: run_try_except)
    next
      case (Inl e)
      let ?b = "sites (events (h e (session_after (b s))))"
      have hb: "sorted_wrt (<) ?b" "\<And>k. k \<in> set ?b \<Longrightarrow> mid \<le> k \<and> k < hi"
        using orderedD(2,3) [OF h] by blast+
      have "sorted_wrt (<) (?a @ ?b) \<and> (\<forall>k \<in> set (?a @ ?b). lo \<le> k \<and> k < hi)"
        using lo hi a hb by (intro ordered_append [where mid = mid]) simp_all
      then show ?thesis using Inl plain by (simp add: run_try_except)
    qed
  qed
qed

lemma ordered_try_except_silent:
  "ordered lo hi b \<Longrightarrow> (\<And>e. silent (h e)) \<Longrightarrow> ordered lo hi (try_except b c h)"
  by (rule ordered_try_except [where mid = hi]) (simp_all add: ordered_silent)

lemma ordered_try_finally:
  assumes b: "ordered lo mid b" and c: "ordered mid hi c"
  shows "ordered lo hi (try_finally b c)"
  unfolding ordered_def
proof (rule conjI)
  have lo: "lo \<le> mid" by (rule orderedD(1) [OF b])
  have hi: "mid \<le> hi" by (rule orderedD(1) [OF c])
  show "lo \<le> hi" using lo hi by simp
  show "\<forall>s. sorted_wrt (<) (sites (events (try_finally b c s))) \<and>
        (\<forall>k \<in> set (sites (events (try_finally b c s))). lo \<le> k \<and> k < hi)"
  proof
    fix s
    let ?a = "sites (events (b s))"
    let ?b = "sites (events (c (session_after (b s))))"
    have a: "sorted_wrt (<) ?a" "\<And>k. k \<in> set ?a \<Longrightarrow> lo \<le> k \<and> k < mid"
      using orderedD(2,3) [OF b] by blast+
    have cb: "sorted_wrt (<) ?b" "\<And>k. k \<in> set ?b \<Longrightarrow> mid \<le> k \<and> k < hi"
      using orderedD(2,3) [OF c] by blast+
    have "sorted_wrt (<) (?a @ ?b) \<and> (\<forall>k \<in> set (?a @ ?b). lo \<le> k \<and> k < hi)"
      using lo hi a cb by (intro ordered_append [where mid = mid]) simp_all
    then show "sorted_wrt (<) (sites (events (try_finally b c s))) \<and>
          (\<forall>k \<in> set (sites (events (try_finally b c s))). lo \<le> k \<and> k < hi)"
      by (simp add: run_try_finally)
  qed
qed


lemma ordered_if:
  "(b \<Longrightarrow> ordered lo hi m) \<Longrightarrow> (\<not> b \<Longrightarrow> ordered lo hi k) \<Longrightarrow> ordered lo hi (if b then m else k)"
  by simp

lemma ordered_case_option:
  "(x = None \<Longrightarrow> ordered lo hi m) \<Longrightarrow> (\<And>v. x = Some v \<Longrightarrow> ordered lo hi (k v)) \<Longrightarrow>
   ordered lo hi (case x of None \<Rightarrow> m | Some v \<Rightarrow> k v)"
  by (cases x) simp_all


lemma ordered_pret: "lo \<le> hi \<Longrightarrow> ordered lo hi (pret x)"
  by (simp add: ordered_silent silent_intros)

lemma ordered_emit: "lo \<le> hi \<Longrightarrow> ordered lo hi (emit u)"
  by (simp add: ordered_silent silent_intros)

lemma ordered_append_message: "lo \<le> hi \<Longrightarrow> ordered lo hi (append_message r c)"
  by (simp add: ordered_silent silent_intros)

lemma ordered_pseq_emit: "ordered lo hi k \<Longrightarrow> ordered lo hi (pseq (emit u) k)"
  by (rule ordered_pseq_silent) (rule silent_emit)

lemma ordered_pseq_append_message:
  "ordered lo hi k \<Longrightarrow> ordered lo hi (pseq (append_message r c) k)"
  by (rule ordered_pseq_silent) (rule silent_append_message)

lemma ordered_pseq_init_messages: "ordered lo hi k \<Longrightarrow> ordered lo hi (pseq init_messages k)"
  by (rule ordered_pseq_silent) (rule silent_init_messages)

lemma ordered_pseq_show_history: "ordered lo hi k \<Longrightarrow> ordered lo hi (pseq show_history k)"
  by (rule ordered_pseq_silent) (rule silent_show_history)

lemma ordered_pseq_modify_session:
  "ordered lo hi k \<Longrightarrow> ordered lo hi (pseq (modify_session g) k)"
  by (rule ordered_pseq_silent) (rule silent_modify_session)

lemmas ordered_steps = ordered_pseq_ext ordered_pseq_emit ordered_pseq_append_message
  ordered_pseq_init_messages ordered_pseq_show_history ordered_pseq_modify_session
  ordered_ext ordered_pret ordered_emit ordered_append_message ordered_if ordered_case_option

lemma ordered_save_upload: "ordered 0 2 (save_upload ev f tp)"
  unfolding save_upload_def by (intro ordered_steps) simp_all

lemma ordered_cleanup_temp: "ordered 20 21 (cleanup_temp ev p)"
  unfolding cleanup_temp_def
  by (intro ordered_if ordered_try_except_silent ordered_ext ordered_pret silent_pret) simp_all

lemma silent_home1_prelude: "silent (home1_prelude ev)"
  unfolding home1_prelude_def by (intro silent_intros)

lemma silent_home_prelude: "silent (home_prelude ev)"
  unfolding home_prelude_def by (intro silent_intros)

lemma ordered_home1_load_documents: "ordered 2 6 (home1_load_documents ev tp)"
  unfolding home1_load_documents_def by (intro ordered_steps) simp_all

lemma ordered_home1_embeddings: "ordered 6 8 (home1_embeddings ev)"
  unfolding home1_embeddings_def
  by (intro ordered_try_except_silent ordered_ext silent_intros) simp_all

lemma ordered_home1_vectorstore: "ordered 8 10 (home1_vectorstore ev p docs)"
  unfolding home1_vectorstore_def
  by (intro ordered_try_except_silent ordered_steps silent_intros) simp_all

lemma ordered_home1_rag_tool: "ordered 11 13 (home1_rag_tool ev p)"
  unfolding home1_rag_tool_def
  by (intro ordered_try_except_silent ordered_steps silent_intros) simp_all

lemma ordered_home1_retrieve: "ordered 14 17 (home1_retrieve ev q)"
  unfolding home1_retrieve_def
  by (intro ordered_if ordered_try_except [where mid = 16] ordered_steps) simp_all

lemma ordered_home1_run_agent: "ordered 17 20 (home1_run_agent ev f q docs)"
  unfolding home1_run_agent_def by (intro ordered_steps) simp_all

lemma ordered_home1_answer: "ordered 14 20 (home1_answer ev f q)"
  unfolding home1_answer_def
  by (intro ordered_steps ordered_try_except_silent ordered_pbind [where mid = 17]
      ordered_home1_retrieve ordered_home1_run_agent silent_intros)

lemma ordered_home1_chat: "ordered 13 20 (home1_chat ev f t)"
  unfolding home1_chat_def
  by (intro ordered_steps) (simp_all add: ordered_home1_answer)

lemma ordered_as_retriever: "ordered 10 11 (ext ev AsRetriever)"
  by (rule ordered_ext) simp_all

lemma ordered_home1_processing: "ordered 0 20 (home1_processing ev f tp)"
  unfolding home1_processing_def
  by (intro ordered_pseq [OF ordered_save_upload] ordered_pbind [OF ordered_home1_load_documents]
      ordered_pseq [OF ordered_home1_embeddings] ordered_pseq [OF ordered_home1_vectorstore]
      ordered_pseq [OF ordered_as_retriever] ordered_pbind [OF ordered_home1_rag_tool]
      ordered_home1_chat)

lemma ordered_home1_page: "ordered 0 21 (home1_page ev)"
  unfolding home1_page_def
  by (intro ordered_pseq_silent silent_home1_prelude ordered_case_option ordered_emit
      ordered_try_finally [OF ordered_home1_processing ordered_cleanup_temp]) simp_all

lemma ordered_home_credentials: "ordered 6 8 (home_credentials ev)"
  unfolding home_credentials_def
  by (intro ordered_try_except_silent ordered_steps silent_intros) simp_all

lemma ordered_home_rag_tool: "ordered 8 12 (home_rag_tool ev)"
  unfolding home_rag_tool_def
  by (intro ordered_try_except_silent ordered_steps silent_intros) simp_all

lemma ordered_home_index: "ordered 12 13 (home_index ev tp)"
  unfolding home_index_def
  by (intro ordered_pbind [where mid = 12] ordered_silent silent_get_session ordered_case_option
      ordered_if ordered_pseq_emit ordered_try_except_silent ordered_pseq [where mid = 13]
      ordered_ext silent_intros) simp_all

lemma ordered_home_answer: "ordered 17 20 (home_answer ev f q)"
  unfolding home_answer_def home_run_agent_def
  by (intro ordered_steps ordered_try_except_silent silent_intros) simp_all

lemma ordered_home_chat: "ordered 13 20 (home_chat ev f)"
  unfolding home_chat_def
  by (intro ordered_steps) (simp_all add: ordered_weaken [OF ordered_home_answer])

lemma ordered_home_processing: "ordered 0 20 (home_processing ev f tp)"
  unfolding home_processing_def
  by (intro ordered_pseq [OF ordered_weaken [OF ordered_save_upload, of 0 6]]
      ordered_pseq [OF ordered_home_credentials] ordered_pseq [OF ordered_home_rag_tool]
      ordered_pseq [OF ordered_home_index] ordered_home_chat) simp_all

lemma ordered_home_page: "ordered 0 21 (home_page ev)"
  unfolding home_page_def
  by (intro ordered_pseq_silent silent_home_prelude ordered_case_option ordered_emit
      ordered_try_finally [OF ordered_home_processing ordered_cleanup_temp]) simp_all

lemma sorted_sites_distinct: "sorted_wrt (<) (xs :: nat list) \<Longrightarrow> distinct xs"
  by (simp add: strict_sorted_iff)

lemma distinct_sites_home1_page: "distinct (map call_site (calls_made (events (home1_page ev s))))"
  using orderedD(2) [OF ordered_home1_page, of ev s]
  by (simp add: sites_def sorted_sites_distinct)

lemma distinct_sites_home_page: "distinct (map call_site (calls_made (events (home_page ev s))))"
  using orderedD(2) [OF ordered_home_page, of ev s]
  by (simp add: sites_def sorted_sites_distinct)

section \<open>Where an exception that leaves a script comes from\<close>

lemma originD:
  "origin I H m \<Longrightarrow> I s \<Longrightarrow> outcome (m s) = Inl e \<Longrightarrow>
   e = StopException \<or> (\<exists>c. Ext c (Some e) \<in> set (events (m s)) \<and> \<not> H c e)"
  by (simp add: origin_def)

lemma origin_any: "origin any_session H m \<Longrightarrow> origin I H m"
  by (simp add: origin_def any_session_def)

lemma origin_pret [origin_intros]: "origin I H (pret x)"
  by (simp add: origin_def)

lemma origin_emit [origin_intros]: "origin I H (emit u)"
  by (simp add: origin_def)

lemma origin_st_stop [origin_intros]: "origin I H st_stop"
  by (simp add: origin_def)

lemma origin_get_session [origin_intros]: "origin I H get_session"
  by (simp add: origin_def)

lemma origin_modify_session [origin_intros]: "origin I H (modify_session g)"
  by (simp add: origin_def)

lemma origin_display_history [origin_intros]: "origin I H (display_history ms)"
  by (simp add: origin_def)

lemma origin_ext [origin_intros]: "(\<And>e. \<not> H c e) \<Longrightarrow> origin I H (ext ev c)"
  by (auto simp: origin_def split: option.splits)

lemma origin_pbind:
  assumes m: "origin I H m" and k: "keeps I m" and f: "\<And>x. origin I H (f x)"
  shows "origin I H (pbind m f)"
  unfolding origin_def
proof (intro allI impI)
  fix s e
  assume I: "I s" and out: "outcome (pbind m f s) = Inl e"
  show "e = StopException \<or> (\<exists>c. Ext c (Some e) \<in> set (events (pbind m f s)) \<and> \<not> H c e)"
  proof (cases "outcome (m s)")
    case (Inl e')
    then have "e' = e" using out by (simp add: run_pbind)
    then show ?thesis using originD [OF m I] Inl by (auto simp: run_pbind)
  next
    case (Inr x)
    have "I (session_after (m s))" by (rule keepsD [OF k I])
    moreover have "outcome (f x (session_after (m s))) = Inl e"
      using out Inr by (simp add: run_pbind)
    ultimately show ?thesis using originD [OF f] Inr by (fastforce simp: run_pbind)
  qed
qed

lemma origin_pseq [origin_intros]:
  "origin I H m \<Longrightarrow> keeps I m \<Longrightarrow> origin I H k \<Longrightarrow> origin I H (pseq m k)"
  by (simp add: pseq_def origin_pbind)

lemma origin_pbind_get:
  assumes "\<And>x. I x \<Longrightarrow> origin I H (f x)"
  shows "origin I H (pbind get_session f)"
  unfolding origin_def
proof (intro allI impI)
  fix s e
  assume I: "I s" and out: "outcome (pbind get_session f s) = Inl e"
  have "outcome (f s s) = Inl e" using out by (simp add: run_pbind)
  then show "e = StopException \<or>
      (\<exists>c. Ext c (Some e) \<in> set (events (pbind get_session f s)) \<and> \<not> H c e)"
    using originD [OF assms [OF I] I] by (simp add: run_pbind)
qed

lemma origin_establish:
  assumes m: "origin I H m" and post: "\<And>s. I s \<Longrightarrow> J (session_after (m s))"
    and k: "origin J H k"
  shows "origin I H (pseq m k)"
  unfolding origin_def
proof (intro allI impI)
  fix s e
  assume I: "I s" and out: "outcome (pseq m k s) = Inl e"
  show "e = StopException \<or> (\<exists>c. Ext c (Some e) \<in> set (events (pseq m k s)) \<and> \<not> H c e)"
  proof (cases "outcome (m s)")
    case (Inl e')
    then have "e' = e" using out by (simp add: run_pseq)
    then show ?thesis using originD [OF m I] Inl by (auto simp: run_pseq)
  next
    case (Inr x)
    have "J (session_after (m s))" by (rule post [OF I])
    moreover have "outcome (k (session_after (m s))) = Inl e"
      using out Inr by (simp add: run_pseq)
    ultimately show ?thesis using originD [OF k] Inr by (fastforce simp: run_pseq)
  qed
qed

lemma origin_if [origin_intros]:
  "(b \<Longrightarrow> origin I H m) \<Longrightarrow> (\<not> b \<Longrightarrow> origin I H k) \<Longrightarrow> origin I H (if b then m else k)"
  by simp

lemma origin_case_option [origin_intros]:
  "(x = None \<Longrightarrow> origin I H m) \<Longrightarrow> (\<And>v. x = Some v \<Longrightarrow> origin I H (k v)) \<Longrightarrow>
   origin I H (case x of None \<Rightarrow> m | Some v \<Rightarrow> k v)"
  by (cases x) simp_all

lemma origin_try_except:
  assumes b: "origin I (\<lambda>c e. H c e \<and> \<not> catches e) b"
    and h: "\<And>e. origin any_session H (h e)"
  shows "origin I H (try_except b catches h)"
  unfolding origin_def
proof (intro allI impI)
  fix s e
  assume I: "I s" and out: "outcome (try_except b catches h s) = Inl e"
  show "e = StopException \<or>
      (\<exists>c. Ext c (Some e) \<in> set (events (try_except b catches h s)) \<and> \<not> H c e)"
  proof (cases "outcome (b s)")
    case (Inr x)
    then show ?thesis using out by (simp add: run_try_except)
  next
    case (Inl e')
    show ?thesis
    proof (cases "catches e'")
      case True
      then have "outcome (h e' (session_after (b s))) = Inl e"
        using out Inl by (simp add: run_try_except)
      then have "e = StopException \<or>
          (\<exists>c. Ext c (Some e) \<in> set (events (h e' (session_after (b s)))) \<and> \<not> H c e)"
        by (intro originD [OF h]) (simp_all add: any_session_def)
      then show ?thesis using Inl True by (auto simp: run_try_except)
    next
      case False
      then have e: "e' = e" using out Inl by (simp add: run_try_except)
      have "e' = StopException \<or>
          (\<exists>c. Ext c (Some e') \<in> set (events (b s)) \<and> \<not> (H c e' \<and> \<not> catches e'))"
        by (rule originD [OF b I Inl])
      then show ?thesis using e False Inl by (auto simp: run_try_except)
    qed
  qed
qed

lemma origin_try_finally:
  assumes b: "origin I H b" and c: "origin any_session H c"
  shows "origin I H (try_finally b c)"
  unfolding origin_def
proof (intro allI impI)
  fix s e
  assume I: "I s" and out: "outcome (try_finally b c s) = Inl e"
  show "e = StopException \<or>
      (\<exists>c'. Ext c' (Some e) \<in> set (events (try_finally b c s)) \<and> \<not> H c' e)"
  proof (cases "outcome (c (session_after (b s)))")
    case (Inl e')
    then have "e' = e" using out by (simp add: run_try_finally)
    then have "e = StopException \<or>
        (\<exists>c'. Ext c' (Some e) \<in> set (events (c (session_after (b s)))) \<and> \<not> H c' e)"
      using Inl by (intro originD [OF c]) (simp_all add: any_session_def)
    then show ?thesis by (auto simp: run_try_finally)
  next
    case (Inr x)
    then have "outcome (b s) = Inl e" using out by (simp add: run_try_finally)
    then have "e = StopException \<or> (\<exists>c'. Ext c' (Some e) \<in> set (events (b s)) \<and> \<not> H c' e)"
      by (rule originD [OF b I])
    then show ?thesis by (auto simp: run_try_finally)
  qed
qed


lemma keeps_any: "keeps any_session m"
  by (simp add: keeps_def any_session_def)

lemma keeps_init_messages [keeps_intros]:
  "(\<And>s. I s \<Longrightarrow> I (s\<lparr>messages := Some []\<rparr>)) \<Longrightarrow> keeps I init_messages"
  unfolding init_messages_def by (intro keeps_intros) simp

lemma keeps_has_messages_append [keeps_intros]: "keeps has_messages (append_message r c)"
  unfolding append_message_def by (intro keeps_intros) (simp add: has_messages_def)

lemma keeps_show_history [keeps_intros]: "keeps I show_history"
  unfolding show_history_def by (intro keeps_intros)

lemma origin_show_history: "origin has_messages H show_history"
  unfolding show_history_def
proof (rule origin_pbind_get)
  fix x assume "has_messages x"
  then obtain ms where "messages x = Some ms" by (auto simp: has_messages_def)
  then show "origin has_messages H
      (case messages x of None \<Rightarrow> praise (attribute_error (ascii ''messages''))
       | Some ms \<Rightarrow> display_history ms)"
    by (simp add: origin_display_history)
qed

lemma origin_append_message: "origin has_messages H (append_message r c)"
  unfolding append_message_def
proof (rule origin_pbind_get)
  fix x assume "has_messages x"
  then obtain ms where "messages x = Some ms" by (auto simp: has_messages_def)
  then show "origin has_messages H
      (case messages x of None \<Rightarrow> praise (attribute_error (ascii ''messages''))
       | Some ms \<Rightarrow> modify_session (\<lambda>s. s\<lparr>messages := Some (ms @ [(r, c)])\<rparr>))"
    by (simp add: origin_modify_session)
qed

lemma origin_cleanup_temp:
  "(\<And>p e. \<not> H (FileRemove p) e) \<Longrightarrow> origin I H (cleanup_temp ev p)"
  unfolding cleanup_temp_def
  by (intro origin_if origin_try_except origin_ext origin_pret) simp

lemma origin_save_upload:
  "(\<And>p e. \<not> H (FileOpen p) e) \<Longrightarrow> (\<And>p b e. \<not> H (FileWrite p b) e) \<Longrightarrow>
   origin I H (save_upload ev f tp)"
  unfolding save_upload_def by (intro origin_intros keeps_intros) simp_all

section \<open>home1.py: exceptions that leave the script\<close>

lemma origin_home1_prelude: "origin I home1_surfaces (home1_prelude ev)"
  unfolding home1_prelude_def
  by (intro origin_any [of _ _ I] origin_intros keeps_any)

lemma origin_home1_load_documents: "origin I home1_surfaces (home1_load_documents ev tp)"
  unfolding home1_load_documents_def
  by (intro origin_any [of _ _ I] origin_intros keeps_any) simp_all

lemma origin_home1_embeddings: "origin I home1_surfaces (home1_embeddings ev)"
  unfolding home1_embeddings_def
  by (intro origin_try_except origin_intros keeps_any) simp_all

lemma origin_home1_vectorstore: "origin I home1_surfaces (home1_vectorstore ev p docs)"
  unfolding home1_vectorstore_def
  by (intro origin_any [of _ _ I] origin_try_except origin_intros keeps_any) simp_all

lemma origin_home1_rag_tool: "origin I home1_surfaces (home1_rag_tool ev p)"
  unfolding home1_rag_tool_def
  by (intro origin_any [of _ _ I] origin_try_except origin_intros keeps_any) simp_all

lemma origin_home1_retrieve:
  "origin I (\<lambda>c e. home1_surfaces c e \<and> \<not> is_Exception e) (home1_retrieve ev q)"
  unfolding home1_retrieve_def
  by (intro origin_any [of _ _ I] origin_if origin_try_except origin_intros keeps_any) simp_all

lemma origin_home1_run_agent:
  "origin has_messages (\<lambda>c e. home1_surfaces c e \<and> \<not> is_Exception e) (home1_run_agent ev f q docs)"
  unfolding home1_run_agent_def
  by (intro origin_intros origin_append_message keeps_intros) simp_all

lemma keeps_home1_retrieve: "keeps I (home1_retrieve ev q)"
  unfolding home1_retrieve_def by (intro keeps_intros)

lemma origin_home1_answer: "origin has_messages home1_surfaces (home1_answer ev f q)"
  unfolding home1_answer_def
  by (intro origin_pseq origin_emit origin_append_message keeps_intros origin_try_except
      origin_pbind origin_home1_retrieve origin_home1_run_agent keeps_home1_retrieve)

lemma origin_home1_chat: "origin I home1_surfaces (home1_chat ev f t)"
  unfolding home1_chat_def
proof (rule origin_establish [where J = has_messages])
  show "origin I home1_surfaces init_messages"
    unfolding init_messages_def by (rule origin_modify_session)
  show "\<And>s. I s \<Longrightarrow> has_messages (session_after (init_messages s))"
    by (simp add: init_messages_def has_messages_def)
  show "origin has_messages home1_surfaces
     (pseq show_history
       (pseq (ext ev (AgentInit t))
         (pseq (emit StChatInput)
           (case user_input ev of None \<Rightarrow> pret ()
            | Some q \<Rightarrow> if q = [] then pret () else home1_answer ev f q))))"
    by (intro origin_pseq origin_show_history origin_ext origin_emit origin_case_option origin_if
        origin_pret origin_home1_answer keeps_intros) simp_all
qed

lemma origin_home1_processing: "origin any_session home1_surfaces (home1_processing ev f tp)"
  unfolding home1_processing_def
  by (intro origin_pseq origin_pbind origin_save_upload origin_home1_load_documents
      origin_home1_embeddings origin_home1_vectorstore origin_home1_rag_tool origin_home1_chat
      origin_ext keeps_any) simp_all

lemma origin_home1_page: "origin any_session home1_surfaces (home1_page ev)"
  unfolding home1_page_def
  by (intro origin_pseq origin_home1_prelude keeps_any origin_case_option origin_emit
      origin_try_finally origin_home1_processing origin_cleanup_temp) simp_all



section \<open>home.py: exceptions that leave the script\<close>

lemma origin_home_prelude: "origin I home_surfaces (home_prelude ev)"
  unfolding home_prelude_def
  by (intro origin_any [of _ _ I] origin_intros keeps_any)

lemma origin_home_credentials: "origin I home_surfaces (home_credentials ev)"
  unfolding home_credentials_def
  by (intro origin_any [of _ _ I] origin_try_except origin_intros keeps_any) simp_all

lemma origin_home_rag_tool: "origin I home_surfaces (home_rag_tool ev)"
  unfolding home_rag_tool_def
  by (intro origin_any [of _ _ I] origin_pseq origin_modify_session origin_ext origin_try_except
      origin_emit origin_st_stop keeps_any) simp_all

lemma has_flag_after_home_rag_tool: "has_flag (session_after (home_rag_tool ev s))"
  by (auto simp: session_home_rag_tool has_flag_def)

lemma origin_home_index: "origin has_flag home_surfaces (home_index ev tp)"
  unfolding home_index_def
proof (rule origin_pbind_get)
  fix x assume "has_flag x"
  then obtain flag where "vector_db_initialized x = Some flag" by (auto simp: has_flag_def)
  moreover have "origin has_flag home_surfaces
      (if \<not> flag
       then pseq (emit (StSpinner (ascii ''Loading PDF into vector database...'')))
              (try_except
                 (pseq (ext ev (RagToolAdd tp))
                       (modify_session (\<lambda>s. s\<lparr>vector_db_initialized := Some True\<rparr>)))
                 is_Exception
                 (\<lambda>e. pseq (emit (StError (ascii ''Error loading PDF: '' @ exn_str e))) st_stop))
       else pret ())"
    by (intro origin_if origin_pseq origin_emit origin_pret origin_try_except origin_ext
        origin_modify_session origin_st_stop keeps_intros keeps_any) simp_all
  ultimately show "origin has_flag home_surfaces
      (case vector_db_initialized x of
         None \<Rightarrow> praise (attribute_error (ascii ''vector_db_initialized''))
       | Some flag \<Rightarrow>
           if \<not> flag
           then pseq (emit (StSpinner (ascii ''Loading PDF into vector database...'')))
                  (try_except
                     (pseq (ext ev (RagToolAdd tp))
                           (modify_session (\<lambda>s. s\<lparr>vector_db_initialized := Some True\<rparr>)))
                     is_Exception
                     (\<lambda>e. pseq (emit (StError (ascii ''Error loading PDF: '' @ exn_str e))) st_stop))
           else pret ())"
    by simp
qed

lemma origin_home_answer: "origin has_messages home_surfaces (home_answer ev f q)"
  unfolding home_answer_def home_run_agent_def
  by (intro origin_pseq origin_emit origin_append_message keeps_intros origin_try_except
      origin_ext) simp_all

lemma origin_home_chat_rest:
  "origin has_messages home_surfaces
     (pseq show_history
       (pseq (emit StChatInput)
         (case user_input ev of None \<Rightarrow> pret ()
          | Some q \<Rightarrow> if q = [] then pret () else home_answer ev f q)))"
  by (intro origin_pseq origin_show_history origin_emit origin_case_option origin_if
      origin_pret origin_home_answer keeps_intros)

lemma origin_home_chat: "origin I home_surfaces (home_chat ev f)"
  unfolding home_chat_def
proof (rule origin_pseq)
  show "origin I home_surfaces (ext ev (AgentInit True))" by (rule origin_ext) simp
  show "keeps I (ext ev (AgentInit True))" by (rule keeps_ext)
  show "origin I home_surfaces
     (pseq init_messages
       (pseq show_history
         (pseq (emit StChatInput)
           (case user_input ev of None \<Rightarrow> pret ()
            | Some q \<Rightarrow> if q = [] then pret () else home_answer ev f q))))"
  proof (rule origin_establish [where J = has_messages])
    show "origin I home_surfaces init_messages"
      unfolding init_messages_def by (rule origin_modify_session)
    show "\<And>s. I s \<Longrightarrow> has_messages (session_after (init_messages s))"
      by (simp add: init_messages_def has_messages_def)
    show "origin has_messages home_surfaces
       (pseq show_history
         (pseq (emit StChatInput)
           (case user_input ev of None \<Rightarrow> pret ()
            | Some q \<Rightarrow> if q = [] then pret () else home_answer ev f q)))"
      by (rule origin_home_chat_rest)
  qed
qed

lemma keeps_has_flag_home_index: "keeps has_flag (home_index ev tp)"
  unfolding home_index_def by (intro keeps_intros) (simp_all add: has_flag_def)

lemma origin_home_processing: "origin any_session home_surfaces (home_processing ev f tp)"
proof -
  have tail: "origin has_flag home_surfaces (pseq (home_index ev tp) (home_chat ev f))"
    by (rule origin_pseq [OF origin_home_index keeps_has_flag_home_index origin_home_chat])
  have rest: "origin any_session home_surfaces
     (pseq (home_rag_tool ev) (pseq (home_index ev tp) (home_chat ev f)))"
    by (rule origin_establish [where J = has_flag, OF origin_home_rag_tool
          has_flag_after_home_rag_tool tail])
  show ?thesis
    unfolding home_processing_def
    by (rule origin_pseq [OF origin_save_upload keeps_any
          origin_pseq [OF origin_home_credentials keeps_any rest]]) simp_all
qed

lemma origin_home_page: "origin any_session home_surfaces (home_page ev)"
  unfolding home_page_def
  by (intro origin_pseq origin_home_prelude keeps_any origin_case_option origin_emit
      origin_try_finally origin_home_processing origin_cleanup_temp) simp_all

section \<open>Nothing after a stop but the cleanup\<close>

lemma stop_is_final_no_stop: "Ui StStop \<notin> set a \<Longrightarrow> stop_is_final (a @ b) = stop_is_final b"
  by (induction a rule: stop_is_final.induct) simp_all

lemma stop_is_final_at_stop:
  "Ui StStop \<notin> set a \<Longrightarrow> stop_is_final (a @ Ui StStop # b) = list_all is_remove b"
  by (induction a rule: stop_is_final.induct) simp_all

lemma removes_stop_is_final: "list_all is_remove b \<Longrightarrow> stop_is_final b"
  by (induction b rule: stop_is_final.induct) simp_all

lemma haltingD:
  "halting m \<Longrightarrow>
   Ui StStop \<notin> set (events (m s)) \<or>
   (outcome (m s) = Inl StopException \<and>
    (\<exists>tr. events (m s) = tr @ [Ui StStop] \<and> Ui StStop \<notin> set tr))"
  by (simp add: halting_def)

lemma halting_quiet: "emits (\<lambda>e. e \<noteq> Ui StStop) m \<Longrightarrow> halting m"
  by (auto simp: halting_def emits_def)

lemma halting_pret [halting_intros]: "halting (pret x)"
  by (simp add: halting_def)

lemma halting_praise [halting_intros]: "halting (praise e)"
  by (simp add: halting_def)

lemma halting_emit [halting_intros]: "u \<noteq> StStop \<Longrightarrow> halting (emit u)"
  by (simp add: halting_def)

lemma halting_st_stop [halting_intros]: "halting st_stop"
  by (simp add: halting_def)

lemma halting_ext [halting_intros]: "halting (ext ev c)"
  by (simp add: halting_def)

lemma halting_get_session [halting_intros]: "halting get_session"
  by (simp add: halting_def)

lemma halting_modify_session [halting_intros]: "halting (modify_session g)"
  by (simp add: halting_def)

lemma halting_display_history [halting_intros]: "halting (display_history ms)"
  by (rule halting_quiet) (intro emits_intros, simp)

lemma halting_append:
  assumes a: "Ui StStop \<notin> set a"
    and b: "Ui StStop \<notin> set b \<or> (\<exists>tr. b = tr @ [Ui StStop] \<and> Ui StStop \<notin> set tr)"
  shows "Ui StStop \<notin> set (a @ b) \<or> (\<exists>tr. a @ b = tr @ [Ui StStop] \<and> Ui StStop \<notin> set tr)"
proof (cases "Ui StStop \<in> set b")
  case False
  then show ?thesis using a by simp
next
  case True
  then obtain tr where "b = tr @ [Ui StStop]" "Ui StStop \<notin> set tr" using b by blast
  then have "a @ b = (a @ tr) @ [Ui StStop] \<and> Ui StStop \<notin> set (a @ tr)" using a by simp
  then show ?thesis by blast
qed

lemma halting_pbind [halting_intros]:
  assumes m: "halting m" and f: "\<And>x. halting (f x)"
  shows "halting (pbind m f)"
  unfolding halting_def
proof
  fix s
  show "Ui StStop \<notin> set (events (pbind m f s)) \<or>
        (outcome (pbind m f s) = Inl StopException \<and>
         (\<exists>tr. events (pbind m f s) = tr @ [Ui StStop] \<and> Ui StStop \<notin> set tr))"
  proof (cases "outcome (m s)")
    case (Inl e)
    then show ?thesis using haltingD [OF m, of s] by (simp add: run_pbind)
  next
    case (Inr x)
    then have a: "Ui StStop \<notin> set (events (m s))" using haltingD [OF m, of s] by auto
    let ?b = "events (f x (session_after (m s)))"
    note hb = haltingD [OF f, of x "session_after (m s)"]
    then have "Ui StStop \<notin> set ?b \<or> (\<exists>tr. ?b = tr @ [Ui StStop] \<and> Ui StStop \<notin> set tr)"
      by blast
    then have "Ui StStop \<notin> set (events (m s) @ ?b) \<or>
        (\<exists>tr. events (m s) @ ?b = tr @ [Ui StStop] \<and> Ui StStop \<notin> set tr)"
      by (rule halting_append [OF a])
    moreover have "Ui StStop \<in> set ?b \<longrightarrow> outcome (f x (session_after (m s))) = Inl StopException"
      using hb by blast
    ultimately show ?thesis using Inr a by (auto simp: run_pbind)
  qed
qed

lemma halting_pseq [halting_intros]: "halting m \<Longrightarrow> halting k \<Longrightarrow> halting (pseq m k)"
  by (simp add: pseq_def halting_pbind)

lemma halting_try_except [halting_intros]:
  assumes b: "halting b" and h: "\<And>e. halting (h e)" and c: "\<not> catches StopException"
  shows "halting (try_except b catches h)"
  unfolding halting_def
proof
  fix s
  show "Ui StStop \<notin> set (events (try_except b catches h s)) \<or>
        (outcome (try_except b catches h s) = Inl StopException \<and>
         (\<exists>tr. events (try_except b catches h s) = tr @ [Ui StStop] \<and> Ui StStop \<notin> set tr))"
  proof (cases "outcome (b s)")
    case (Inr x)
    then show ?thesis using haltingD [OF b, of s] by (simp add: run_try_except)
  next
    case (Inl e)
    show ?thesis
    proof (cases "catches e")
      case False
      then show ?thesis using Inl haltingD [OF b, of s] by (simp add: run_try_except)
    next
      case True
      then have "e \<noteq> StopException" using c by auto
      then have a: "Ui StStop \<notin> set (events (b s))" using Inl haltingD [OF b, of s] by auto
      let ?b = "events (h e (session_after (b s)))"
      note hb = haltingD [OF h, of e "session_after (b s)"]
      then have "Ui StStop \<notin> set ?b \<or> (\<exists>tr. ?b = tr @ [Ui StStop] \<and> Ui StStop \<notin> set tr)"
        by blast
      then have "Ui StStop \<notin> set (events (b s) @ ?b) \<or>
          (\<exists>tr. events (b s) @ ?b = tr @ [Ui StStop] \<and> Ui StStop \<notin> set tr)"
        by (rule halting_append [OF a])
      moreover have "Ui StStop \<in> set ?b \<longrightarrow> outcome (h e (session_after (b s))) = Inl StopException"
        using hb by blast
      ultimately show ?thesis using Inl True a by (auto simp: run_try_except)
    qed
  qed
qed

lemma halting_if [halting_intros]:
  "(b \<Longrightarrow> halting m) \<Longrightarrow> (\<not> b \<Longrightarrow> halting k) \<Longrightarrow> halting (if b then m else k)"
  by simp

lemma halting_case_option [halting_intros]:
  "(x = None \<Longrightarrow> halting m) \<Longrightarrow> (\<And>v. x = Some v \<Longrightarrow> halting (k v)) \<Longrightarrow>
   halting (case x of None \<Rightarrow> m | Some v \<Rightarrow> k v)"
  by (cases x) simp_all

lemma halting_init_messages [halting_intros]: "halting init_messages"
  unfolding init_messages_def by (intro halting_intros)

lemma halting_append_message [halting_intros]: "halting (append_message r c)"
  unfolding append_message_def by (intro halting_intros)

lemma halting_show_history [halting_intros]: "halting show_history"
  unfolding show_history_def by (intro halting_intros)

lemma halting_home1_processing: "halting (home1_processing ev f tp)"
  unfolding home1_stage_defs home1_answer_def home1_retrieve_def home1_run_agent_def
  by (intro halting_intros) simp_all

lemma halting_home1_prelude: "halting (home1_prelude ev)"
  unfolding home1_prelude_def by (intro halting_intros) simp_all

lemma halting_home_processing: "halting (home_processing ev f tp)"
  unfolding home_stage_defs by (intro halting_intros) simp_all

lemma halting_home_prelude: "halting (home_prelude ev)"
  unfolding home_prelude_def by (intro halting_intros) simp_all

lemma removes_cleanup_temp: "list_all is_remove (events (cleanup_temp ev p s))"
  by (simp add: run_cleanup_temp)

lemma stop_is_final_finally:
  assumes "halting b"
  shows "stop_is_final (events (try_finally b (cleanup_temp ev p) s))"
proof (cases "Ui StStop \<in> set (events (b s))")
  case False
  then show ?thesis
    using removes_stop_is_final [OF removes_cleanup_temp]
    by (simp add: run_try_finally stop_is_final_no_stop)
next
  case True
  then obtain tr where "events (b s) = tr @ [Ui StStop]" "Ui StStop \<notin> set tr"
    using haltingD [OF assms, of s] by blast
  then show ?thesis
    using removes_cleanup_temp by (simp add: run_try_finally stop_is_final_at_stop)
qed

lemma stop_is_final_page:
  assumes p: "halting prelude" and b: "\<And>f. halting (body f)"
  shows "stop_is_final (events (pseq prelude
           (case up of None \<Rightarrow> emit (StInfo msg)
            | Some f \<Rightarrow> try_finally (body f) (cleanup_temp ev (tp f))) s))"
proof (cases "outcome (prelude s)")
  case (Inl e)
  have "Ui StStop \<notin> set (events (prelude s)) \<or>
        (\<exists>tr. events (prelude s) = tr @ [Ui StStop] \<and> Ui StStop \<notin> set tr)"
    using haltingD [OF p, of s] by blast
  then have "stop_is_final (events (prelude s))"
  proof
    assume "Ui StStop \<notin> set (events (prelude s))"
    then show ?thesis using stop_is_final_no_stop [of "events (prelude s)" "[]"] by simp
  next
    assume "\<exists>tr. events (prelude s) = tr @ [Ui StStop] \<and> Ui StStop \<notin> set tr"
    then obtain tr where "events (prelude s) = tr @ [Ui StStop]" "Ui StStop \<notin> set tr" by blast
    then show ?thesis using stop_is_final_at_stop [of tr "[]"] by simp
  qed
  then show ?thesis using Inl by (simp add: run_pseq)
next
  case (Inr x)
  then have a: "Ui StStop \<notin> set (events (prelude s))" using haltingD [OF p, of s] by auto
  show ?thesis
  proof (cases up)
    case None
    then show ?thesis using Inr a by (simp add: run_pseq stop_is_final_no_stop)
  next
    case (Some f)
    then show ?thesis
      using Inr a stop_is_final_finally [OF b, of f ev "tp f" "session_after (prelude s)"]
      by (simp add: run_pseq stop_is_final_no_stop)
  qed
qed

lemma stop_is_final_home1_page: "stop_is_final (events (home1_page ev s))"
  unfolding home1_page_def
  by (rule stop_is_final_page [OF halting_home1_prelude halting_home1_processing])

lemma stop_is_final_home_page: "stop_is_final (events (home_page ev s))"
  unfolding home_page_def
  by (rule stop_is_final_page [OF halting_home_prelude halting_home_processing])


section \<open>Error handling of the pages\<close>

lemma ascii_eq_Nil: "ascii t = [] \<longleftrightarrow> t = []"
  by (simp add: ascii_def)

lemma embeddings_failing_env_fields:
  "api_key embeddings_failing_env = Some (ascii ''sk-test'')"
  "uploaded_file embeddings_failing_env = Some \<lparr>file_name = ascii ''a.pdf'', file_bytes = [37, 80, 68, 70]\<rparr>"
  "path_exists embeddings_failing_env = (\<lambda>_. True)"
  "raises embeddings_failing_env EmbeddingsInit = Some (PyException (ascii ''invalid model''))"
  "raises embeddings_failing_env (FileOpen p) = None"
  "raises embeddings_failing_env (FileWrite p b) = None"
  "raises embeddings_failing_env (FileRemove p) = None"
  "raises embeddings_failing_env (PdfLoaderInit p) = None"
  "raises embeddings_failing_env PdfLoaderLoad = None"
  "raises embeddings_failing_env TextSplitterInit = None"
  "raises embeddings_failing_env (SplitDocuments ds) = None"
  by (simp_all add: embeddings_failing_env_def example_env_def)

lemma fallback_env_fields:
  "api_key fallback_env = Some (ascii ''sk-test'')"
  "uploaded_file fallback_env = Some \<lparr>file_name = ascii ''a.pdf'', file_bytes = [37, 80, 68, 70]\<rparr>"
  "user_input fallback_env = Some (ascii ''What reruns?'')"
  "path_exists fallback_env = (\<lambda>_. True)"
  "has_get_relevant_documents fallback_env = False"
  "kickoff_result fallback_env = ascii ''The script.''"
  "raises fallback_env (SimilaritySearch q k) = Some (PyException (ascii ''not supported''))"
  "raises fallback_env (SimilaritySearchWithScore q k) = None"
  "raises fallback_env (FileOpen p) = None"
  "raises fallback_env (FileWrite p b) = None"
  "raises fallback_env (FileRemove p) = None"
  "raises fallback_env (PdfLoaderInit p) = None"
  "raises fallback_env PdfLoaderLoad = None"
  "raises fallback_env TextSplitterInit = None"
  "raises fallback_env (SplitDocuments ds) = None"
  "raises fallback_env EmbeddingsInit = None"
  "raises fallback_env (MakeDirs p) = None"
  "raises fallback_env (FaissFromDocuments ds) = None"
  "raises fallback_env AsRetriever = None"
  "raises fallback_env (RagToolInit p) = None"
  "raises fallback_env (AgentInit t) = None"
  "raises fallback_env (TaskInit d eo) = None"
  "raises fallback_env CrewInit = None"
  "raises fallback_env CrewKickoff = None"
  by (simp_all add: fallback_env_def example_env_def)

lemma home_page_embeddings_failing:
  "outcome (home_page embeddings_failing_env fresh_session) = Inl (PyException (ascii ''invalid model''))"
  "filter is_message (events (home_page embeddings_failing_env fresh_session)) = []"
  by (simp_all add: home_stage_defs run_simps embeddings_failing_env_fields key_missing_def
      run_cleanup_temp ascii_def)

lemma home1_page_fallback:
  "outcome (home1_page fallback_env fresh_session) = Inr ()"
  "filter is_message (events (home1_page fallback_env fresh_session)) = []"
  "Ext (SimilaritySearch (ascii ''What reruns?'') 5) (Some (PyException (ascii ''not supported'')))
     \<in> set (events (home1_page fallback_env fresh_session))"
  by (simp_all add: home1_stage_defs home1_answer_def home1_retrieve_def home1_run_agent_def
      run_simps fallback_env_fields init_messages_def show_history_def append_message_def
      key_missing_def fresh_session_def run_cleanup_temp ascii_def)

text \<open>
  C5, as stated, fails. On home.py an Exception raised by the embedding-model constructor
  that is not a DefaultCredentialsError is not caught: it is the outcome of the script,
  and the script shows no message of its own. On home1.py, with a retriever that lacks
  \<^verbatim>\<open>get_relevant_documents\<close>, an Exception raised by \<^verbatim>\<open>similarity_search\<close> is caught
  and the script shows no message.
\<close>

theorem uncaught_error_counterexample:
  "raises embeddings_failing_env EmbeddingsInit = Some (PyException (ascii ''invalid model'')) \<and>
   is_Exception (PyException (ascii ''invalid model'')) \<and>
   outcome (home_page embeddings_failing_env fresh_session) = Inl (PyException (ascii ''invalid model'')) \<and>
   filter is_message (events (home_page embeddings_failing_env fresh_session)) = [] \<and>
   Ext (SimilaritySearch (ascii ''What reruns?'') 5) (Some (PyException (ascii ''not supported'')))
     \<in> set (events (home1_page fallback_env fresh_session)) \<and>
   filter is_message (events (home1_page fallback_env fresh_session)) = []"
  by (simp add: home_page_embeddings_failing home1_page_fallback embeddings_failing_env_fields)

lemma falls_back_append: "falls_back a \<Longrightarrow> falls_back b \<Longrightarrow> falls_back (a @ b)"
proof (induction a rule: falls_back.induct)
  case 1
  then show ?case by simp
next
  case (2 x)
  then show ?case by (cases b) simp_all
next
  case (3 x y tr)
  then show ?case by simp
qed

lemma falls_back_tl: "falls_back (x # tr) \<Longrightarrow> falls_back tr"
  by (cases tr) simp_all

lemma falls_backD:
  "falls_back (a @ x # b) \<Longrightarrow> failed_search x \<Longrightarrow> \<exists>y b'. b = y # b' \<and> answers x y"
proof (induction a)
  case Nil
  then show ?case by (cases b) simp_all
next
  case (Cons z a)
  from Cons.prems(1) have "falls_back (a @ x # b)"
    using falls_back_tl [of z "a @ x # b"] by simp
  then show ?case using Cons.IH Cons.prems(2) by blast
qed

lemma fallbackD: "fallback m \<Longrightarrow> falls_back (events (m s))"
  by (simp add: fallback_def)

lemma fallback_pret [fallback_intros]: "fallback (pret x)"
  by (simp add: fallback_def)

lemma fallback_praise [fallback_intros]: "fallback (praise e)"
  by (simp add: fallback_def)

lemma fallback_emit [fallback_intros]: "fallback (emit u)"
  by (simp add: fallback_def failed_search_def)

lemma fallback_st_stop [fallback_intros]: "fallback st_stop"
  by (simp add: fallback_def failed_search_def)

lemma fallback_get_session [fallback_intros]: "fallback get_session"
  by (simp add: fallback_def)

lemma fallback_modify_session [fallback_intros]: "fallback (modify_session g)"
  by (simp add: fallback_def)

lemma fallback_ext [fallback_intros]:
  "(\<And>q k. c \<noteq> SimilaritySearch q k) \<Longrightarrow> fallback (ext ev c)"
  by (cases c) (auto simp: fallback_def failed_search_def)

lemma fallback_pbind [fallback_intros]:
  assumes "fallback m" and "\<And>x. fallback (f x)"
  shows "fallback (pbind m f)"
  unfolding fallback_def
proof
  fix s
  show "falls_back (events (pbind m f s))"
    using fallbackD [OF assms(1), of s] fallbackD [OF assms(2)]
    by (cases "outcome (m s)") (simp_all add: run_pbind falls_back_append)
qed

lemma fallback_pseq [fallback_intros]: "fallback m \<Longrightarrow> fallback k \<Longrightarrow> fallback (pseq m k)"
  by (simp add: pseq_def fallback_pbind)

lemma fallback_try_except [fallback_intros]:
  assumes "fallback b" and "\<And>e. fallback (h e)"
  shows "fallback (try_except b c h)"
  unfolding fallback_def
proof
  fix s
  show "falls_back (events (try_except b c h s))"
    using fallbackD [OF assms(1), of s] fallbackD [OF assms(2)]
    by (cases "outcome (b s)") (simp_all add: run_try_except falls_back_append)
qed

lemma fallback_try_finally [fallback_intros]:
  assumes "fallback b" and "fallback c"
  shows "fallback (try_finally b c)"
  unfolding fallback_def
proof
  fix s
  show "falls_back (events (try_finally b c s))"
    using fallbackD [OF assms(1), of s] fallbackD [OF assms(2)]
    by (simp add: run_try_finally falls_back_append)
qed

lemma fallback_display_history [fallback_intros]: "fallback (display_history ms)"
proof -
  have "falls_back (map (\<lambda>(r, c). Ui (StChatMessage r c)) ms)"
  proof (induction ms)
    case Nil
    show ?case by simp
  next
    case (Cons m ms)
    then show ?case by (cases m; cases ms) (auto simp: failed_search_def)
  qed
  then show ?thesis by (simp add: fallback_def)
qed

lemma fallback_if [fallback_intros]:
  "(b \<Longrightarrow> fallback m) \<Longrightarrow> (\<not> b \<Longrightarrow> fallback k) \<Longrightarrow> fallback (if b then m else k)"
  by simp

lemma fallback_case_option [fallback_intros]:
  "(x = None \<Longrightarrow> fallback m) \<Longrightarrow> (\<And>v. x = Some v \<Longrightarrow> fallback (k v)) \<Longrightarrow>
   fallback (case x of None \<Rightarrow> m | Some v \<Rightarrow> k v)"
  by (cases x) simp_all

lemma fallback_cleanup_temp [fallback_intros]: "fallback (cleanup_temp ev p)"
  unfolding cleanup_temp_def by (intro fallback_intros) simp_all

lemma fallback_home1_retrieve: "fallback (home1_retrieve ev q)"
  unfolding fallback_def
proof
  fix s
  show "falls_back (events (home1_retrieve ev q s))"
    by (auto simp: home1_retrieve_def run_simps failed_search_def answers_def
        split: option.splits)
qed

lemma fallback_home1_page: "fallback (home1_page ev)"
  unfolding home1_stage_defs home1_answer_def home1_run_agent_def
    init_messages_def show_history_def append_message_def
  by (intro fallback_intros fallback_home1_retrieve) simp_all

lemma faithful_home1_page:
  "emits (\<lambda>x. \<forall>c r. x = Ext c r \<longrightarrow> r = raises ev c) (home1_page ev)"
  unfolding home1_stage_defs home1_answer_def home1_retrieve_def home1_run_agent_def
  by (intro emits_intros) simp_all

lemma home1_page_falls_back:
  assumes "events (home1_page ev s) = a @ Ext (SimilaritySearch q k) (Some e) # b"
    and "is_Exception e"
  shows "\<exists>b'. b = Ext (SimilaritySearchWithScore q k) (raises ev (SimilaritySearchWithScore q k)) # b'"
proof -
  have "falls_back (a @ Ext (SimilaritySearch q k) (Some e) # b)"
    using fallbackD [OF fallback_home1_page, of ev s] assms(1) by simp
  moreover have "failed_search (Ext (SimilaritySearch q k) (Some e))"
    using assms(2) by (simp add: failed_search_def)
  ultimately obtain y b' where b: "b = y # b'" and y: "answers (Ext (SimilaritySearch q k) (Some e)) y"
    using falls_backD by blast
  from y obtain r where y': "y = Ext (SimilaritySearchWithScore q k) r"
    by (auto simp: answers_def split: event.splits call.splits)
  have "y \<in> set (events (home1_page ev s))"
    using assms(1) b by simp
  then have "r = raises ev (SimilaritySearchWithScore q k)"
    using emitsD [OF faithful_home1_page] y' by blast
  then show ?thesis using b y' by simp
qed

lemma home_processing_writes:
  "emits (\<lambda>x. \<forall>c r. x = Ext c r \<longrightarrow> writes_persisted c \<longrightarrow>
            c = FileOpen tp \<or> c = FileWrite tp (file_bytes f) \<or>
            c = MakeDirs (ascii ''./vector_db'') \<or> c = RagToolInit (ascii ''./vector_db'') \<or>
            c = RagToolAdd tp)
     (home_processing ev f tp)"
  unfolding home_stage_defs
  by (intro emits_intros) (simp_all add: writes_persisted_def)

lemma home1_processing_writes:
  "emits (\<lambda>x. \<forall>c r. x = Ext c r \<longrightarrow> writes_persisted c \<longrightarrow>
            c = FileOpen tp \<or> c = FileWrite tp (file_bytes f) \<or>
            c = MakeDirs (os_path_join (script_dir ev) (ascii ''vector_db'')) \<or>
            c = RagToolInit (os_path_join (script_dir ev) (ascii ''vector_db'')))
     (home1_processing ev f tp)"
  unfolding home1_stage_defs home1_answer_def home1_retrieve_def home1_run_agent_def
  by (intro emits_intros) (simp_all add: writes_persisted_def)

lemma home_page_calls:
  assumes "Ext c r \<in> set (events (home_page ev s))"
  shows "\<exists>f. uploaded_file ev = Some f \<and> \<not> key_missing (api_key ev) \<and>
           (Ext c r \<in> set (events (home_processing ev f (home_temp_path f) s)) \<or>
            c = FileRemove (home_temp_path f) \<and> path_exists ev (home_temp_path f))"
proof -
  have k: "\<not> key_missing (api_key ev)"
  proof
    assume m: "key_missing (api_key ev)"
    then have "events (home_page ev s) = events (home_prelude ev s)"
      by (simp add: home_page_def run_pseq run_home_prelude_missing)
    then show False
      using assms m by (auto simp: run_home_prelude_missing)
  qed
  obtain f where f: "uploaded_file ev = Some f"
    using assms k
    by (cases "uploaded_file ev") (auto simp: home_page_def run_pseq run_home_prelude_present)
  have "Ext c r \<in> set (events (home_processing ev f (home_temp_path f) s)) \<or>
        c = FileRemove (home_temp_path f) \<and> path_exists ev (home_temp_path f)"
    using assms k f
    by (auto simp: home_page_def run_pseq run_try_finally run_cleanup_temp
        run_home_prelude_present split: if_splits)
  then show ?thesis using f k by blast
qed

lemma home1_page_calls:
  assumes "Ext c r \<in> set (events (home1_page ev s))"
  shows "\<exists>f. uploaded_file ev = Some f \<and> \<not> key_missing (api_key ev) \<and>
           (Ext c r \<in> set (events (home1_processing ev f (home1_temp_path ev f)
                                   (session_after (home1_prelude ev s)))) \<or>
            c = FileRemove (home1_temp_path ev f) \<and> path_exists ev (home1_temp_path ev f))"
proof -
  have k: "\<not> key_missing (api_key ev)"
  proof
    assume m: "key_missing (api_key ev)"
    then have "events (home1_page ev s) = events (home1_prelude ev s)"
      by (simp add: home1_page_def run_pseq run_home1_prelude_missing)
    then show False
      using assms m by (auto simp: run_home1_prelude_missing)
  qed
  obtain f where f: "uploaded_file ev = Some f"
    using assms k
    by (cases "uploaded_file ev") (auto simp: home1_page_def run_pseq run_home1_prelude_present)
  have "Ext c r \<in> set (events (home1_processing ev f (home1_temp_path ev f)
                               (session_after (home1_prelude ev s)))) \<or>
        c = FileRemove (home1_temp_path ev f) \<and> path_exists ev (home1_temp_path ev f)"
    using assms k f
    by (auto simp: home1_page_def run_pseq run_try_finally run_cleanup_temp
        run_home1_prelude_present split: if_splits)
  then show ?thesis using f k by blast
qed

lemma home_page_without_errors:
  assumes "uploaded_file ev = Some f" and "\<not> key_missing (api_key ev)"
  shows "Ext (FileOpen (home_temp_path f)) None
           \<in> set (events (home_page (ev\<lparr>raises := (\<lambda>_. None)\<rparr>) s))"
    and "Ext (FileWrite (home_temp_path f) (file_bytes f)) None
           \<in> set (events (home_page (ev\<lparr>raises := (\<lambda>_. None)\<rparr>) s))"
    and "Ext (MakeDirs (ascii ''./vector_db'')) None
           \<in> set (events (home_page (ev\<lparr>raises := (\<lambda>_. None)\<rparr>) s))"
    and "Ext (RagToolInit (ascii ''./vector_db'')) None
           \<in> set (events (home_page (ev\<lparr>raises := (\<lambda>_. None)\<rparr>) s))"
    and "vector_db_initialized s \<noteq> Some True \<Longrightarrow>
         Ext (RagToolAdd (home_temp_path f)) None
           \<in> set (events (home_page (ev\<lparr>raises := (\<lambda>_. None)\<rparr>) s))"
    and "path_exists ev (home_temp_path f) \<Longrightarrow>
         Ext (FileRemove (home_temp_path f)) None
           \<in> set (events (home_page (ev\<lparr>raises := (\<lambda>_. None)\<rparr>) s))"
  using assms
  by (auto simp: home_page_def home_processing_def save_upload_def home_credentials_def
      home_rag_tool_def run_home_index run_simps run_home_prelude_present run_cleanup_temp
      split: option.splits)

lemma home1_page_without_errors:
  assumes "uploaded_file ev = Some f" and "\<not> key_missing (api_key ev)"
  shows "Ext (FileOpen (home1_temp_path ev f)) None
           \<in> set (events (home1_page (ev\<lparr>raises := (\<lambda>_. None)\<rparr>) s))"
    and "Ext (FileWrite (home1_temp_path ev f) (file_bytes f)) None
           \<in> set (events (home1_page (ev\<lparr>raises := (\<lambda>_. None)\<rparr>) s))"
    and "Ext (MakeDirs (os_path_join (script_dir ev) (ascii ''vector_db''))) None
           \<in> set (events (home1_page (ev\<lparr>raises := (\<lambda>_. None)\<rparr>) s))"
    and "Ext (RagToolInit (os_path_join (script_dir ev) (ascii ''vector_db''))) None
           \<in> set (events (home1_page (ev\<lparr>raises := (\<lambda>_. None)\<rparr>) s))"
    and "path_exists ev (home1_temp_path ev f) \<Longrightarrow>
         Ext (FileRemove (home1_temp_path ev f)) None
           \<in> set (events (home1_page (ev\<lparr>raises := (\<lambda>_. None)\<rparr>) s))"
  using assms
  by (auto simp: home1_page_def home1_processing_def save_upload_def home1_load_documents_def
      home1_embeddings_def home1_vectorstore_def home1_rag_tool_def home1_temp_path_def
      run_simps run_home1_prelude_present run_cleanup_temp)

lemma home_page_writes_without_errors:
  assumes "Ext c r \<in> set (events (home_page ev s))" and "writes_persisted c"
  shows "Ext c None \<in> set (events (home_page (ev\<lparr>raises := (\<lambda>_. None)\<rparr>) s))"
proof -
  obtain f where f: "uploaded_file ev = Some f" and k: "\<not> key_missing (api_key ev)"
    and c: "Ext c r \<in> set (events (home_processing ev f (home_temp_path f) s)) \<or>
            c = FileRemove (home_temp_path f) \<and> path_exists ev (home_temp_path f)"
    using home_page_calls [OF assms(1)] by blast
  note ok = home_page_without_errors [OF f k, of s]
  from c show ?thesis
  proof
    assume "c = FileRemove (home_temp_path f) \<and> path_exists ev (home_temp_path f)"
    then show ?thesis using ok(6) by simp
  next
    assume "Ext c r \<in> set (events (home_processing ev f (home_temp_path f) s))"
    then have "c = FileOpen (home_temp_path f) \<or> c = FileWrite (home_temp_path f) (file_bytes f) \<or>
            c = MakeDirs (ascii ''./vector_db'') \<or> c = RagToolInit (ascii ''./vector_db'') \<or>
            c = RagToolAdd (home_temp_path f)"
      using emitsD [OF home_processing_writes] assms(2) by blast
    moreover have "c = RagToolAdd (home_temp_path f) \<longrightarrow> vector_db_initialized s \<noteq> Some True"
      using home_page_add_needs_unset assms(1) by blast
    ultimately show ?thesis using ok(1-5) by blast
  qed
qed

lemma home1_page_writes_without_errors:
  assumes "Ext c r \<in> set (events (home1_page ev s))" and "writes_persisted c"
  shows "Ext c None \<in> set (events (home1_page (ev\<lparr>raises := (\<lambda>_. None)\<rparr>) s))"
proof -
  obtain f where f: "uploaded_file ev = Some f" and k: "\<not> key_missing (api_key ev)"
    and c: "Ext c r \<in> set (events (home1_processing ev f (home1_temp_path ev f)
                                   (session_after (home1_prelude ev s)))) \<or>
            c = FileRemove (home1_temp_path ev f) \<and> path_exists ev (home1_temp_path ev f)"
    using home1_page_calls [OF assms(1)] by blast
  note ok = home1_page_without_errors [OF f k, of s]
  from c show ?thesis
  proof
    assume "c = FileRemove (home1_temp_path ev f) \<and> path_exists ev (home1_temp_path ev f)"
    then show ?thesis using ok(5) by simp
  next
    assume "Ext c r \<in> set (events (home1_processing ev f (home1_temp_path ev f)
                                   (session_after (home1_prelude ev s))))"
    then have "c = FileOpen (home1_temp_path ev f) \<or>
            c = FileWrite (home1_temp_path ev f) (file_bytes f) \<or>
            c = MakeDirs (os_path_join (script_dir ev) (ascii ''vector_db'')) \<or>
            c = RagToolInit (os_path_join (script_dir ev) (ascii ''vector_db''))"
      using emitsD [OF home1_processing_writes] assms(2) by blast
    then show ?thesis using ok(1-4) by blast
  qed
qed

lemma faithful_home_page:
  "emits (\<lambda>x. \<forall>c r. x = Ext c r \<longrightarrow> r = raises ev c) (home_page ev)"
  unfolding home_stage_defs
  by (intro emits_intros) simp_all

lemma home_page_credentials_run:
  assumes "uploaded_file ev = Some f" and "\<not> key_missing (api_key ev)"
    and "raises ev (FileOpen (home_temp_path f)) = None"
    and "raises ev (FileWrite (home_temp_path f) (file_bytes f)) = None"
    and "raises ev EmbeddingsInit = Some e \<or>
         raises ev EmbeddingsInit = None \<and> raises ev ChatModelInit = Some e"
    and "\<not> is_DefaultCredentialsError e"
  shows "filter is_message (events (home_page ev s)) = []"
    and "Ui StStop \<notin> set (events (home_page ev s))"
    and "outcome (home_page ev s) =
           (case raises ev (FileRemove (home_temp_path f)) of
              None \<Rightarrow> Inl e
            | Some r \<Rightarrow> if path_exists ev (home_temp_path f) \<and> \<not> is_Exception r then Inl r
                        else Inl e)"
  using assms
  by (auto simp: home_page_def home_processing_def save_upload_def home_credentials_def
      run_simps run_cleanup_temp run_home_prelude_present split: option.splits)

lemma home_page_credentials_reached:
  assumes "Ext c (Some e) \<in> set (events (home_page ev s))"
    and "c = EmbeddingsInit \<or> c = ChatModelInit"
  shows "\<exists>f. uploaded_file ev = Some f \<and> \<not> key_missing (api_key ev) \<and>
           raises ev (FileOpen (home_temp_path f)) = None \<and>
           raises ev (FileWrite (home_temp_path f) (file_bytes f)) = None \<and>
           (raises ev EmbeddingsInit = Some e \<or>
            raises ev EmbeddingsInit = None \<and> raises ev ChatModelInit = Some e)"
proof -
  have r: "raises ev c = Some e"
    using emitsD [OF faithful_home_page assms(1)] by simp
  have k: "\<not> key_missing (api_key ev)"
  proof
    assume "key_missing (api_key ev)"
    then have "events (home_page ev s) = events (home_prelude ev s)"
      by (simp add: home_page_def run_pseq run_home_prelude_missing)
    then show False
      using assms(1) \<open>key_missing (api_key ev)\<close> by (auto simp: run_home_prelude_missing)
  qed
  obtain f where f: "uploaded_file ev = Some f"
    using assms(1) k
    by (cases "uploaded_file ev") (auto simp: home_page_def run_pseq run_home_prelude_present)
  have o: "raises ev (FileOpen (home_temp_path f)) = None"
  proof (rule ccontr)
    assume "raises ev (FileOpen (home_temp_path f)) \<noteq> None"
    then show False
      using assms f k
      by (auto simp: home_page_def home_processing_def save_upload_def run_simps
          run_cleanup_temp run_home_prelude_present split: if_splits)
  qed
  have w: "raises ev (FileWrite (home_temp_path f) (file_bytes f)) = None"
  proof (rule ccontr)
    assume "raises ev (FileWrite (home_temp_path f) (file_bytes f)) \<noteq> None"
    then show False
      using assms f k o
      by (auto simp: home_page_def home_processing_def save_upload_def run_simps
          run_cleanup_temp run_home_prelude_present split: if_splits)
  qed
  have "raises ev EmbeddingsInit = Some e \<or>
        raises ev EmbeddingsInit = None \<and> raises ev ChatModelInit = Some e"
  proof (cases "c = EmbeddingsInit")
    case True
    then show ?thesis using r by simp
  next
    case False
    then have c: "c = ChatModelInit" using assms(2) by simp
    show ?thesis
    proof (cases "raises ev EmbeddingsInit")
      case None
      then show ?thesis using r c by simp
    next
      case (Some e1)
      then have False
        using assms(1) f k o w c
        by (auto simp: home_page_def home_processing_def save_upload_def home_credentials_def
            run_simps run_cleanup_temp run_home_prelude_present split: if_splits)
      then show ?thesis ..
    qed
  qed
  then show ?thesis using f k o w by blast
qed

text \<open>
  C5, amended. In every run of either page: each call that raises an exception the page
  surfaces (\<open>home1_surfaces\<close>, \<open>home_surfaces\<close>) is followed at once by a user-facing
  message. On home.py, when a model constructor raises anything but a
  DefaultCredentialsError, the script shows no message and does not call \<^verbatim>\<open>st.stop()\<close>,
  and the exception is the outcome of the script (unless the cleanup's \<^verbatim>\<open>os.remove\<close>
  raises something that is no Exception, which then is the outcome). On home1.py an
  Exception raised by \<^verbatim>\<open>similarity_search\<close> is followed at once by the call of
  \<^verbatim>\<open>similarity_search_with_score\<close> with the same arguments. Every call site is executed
  at most once, so nothing is retried; an exception that leaves the script is the
  StopException of \<^verbatim>\<open>st.stop()\<close> or was raised by a call at which the page does not
  surface it; after \<^verbatim>\<open>st.stop()\<close> the run does nothing but the cleanup's \<^verbatim>\<open>os.remove\<close>;
  and every call of a run that writes outside the session state is also made, and
  succeeds, in the run of the same script from the same session in which no call raises.
\<close>

theorem errors_surfaced:
  "surfaced home1_surfaces (events (home1_page ev s)) \<and>
   surfaced home_surfaces (events (home_page ev s)) \<and>
   (\<forall>c e. Ext c (Some e) \<in> set (events (home_page ev s)) \<and>
          (c = EmbeddingsInit \<or> c = ChatModelInit) \<and> \<not> is_DefaultCredentialsError e \<longrightarrow>
        filter is_message (events (home_page ev s)) = [] \<and>
        Ui StStop \<notin> set (events (home_page ev s)) \<and>
        (outcome (home_page ev s) = Inl e \<or>
         (\<exists>p r. raises ev (FileRemove p) = Some r \<and> \<not> is_Exception r \<and>
                outcome (home_page ev s) = Inl r))) \<and>
   (\<forall>a b q k e. events (home1_page ev s) = a @ Ext (SimilaritySearch q k) (Some e) # b \<and>
          is_Exception e \<longrightarrow>
        (\<exists>b'. b = Ext (SimilaritySearchWithScore q k)
                     (raises ev (SimilaritySearchWithScore q k)) # b')) \<and>
   distinct (map call_site (calls_made (events (home1_page ev s)))) \<and>
   distinct (map call_site (calls_made (events (home_page ev s)))) \<and>
   (\<forall>e. outcome (home1_page ev s) = Inl e \<longrightarrow>
        e = StopException \<or>
        (\<exists>c. Ext c (Some e) \<in> set (events (home1_page ev s)) \<and> \<not> home1_surfaces c e)) \<and>
   (\<forall>e. outcome (home_page ev s) = Inl e \<longrightarrow>
        e = StopException \<or>
        (\<exists>c. Ext c (Some e) \<in> set (events (home_page ev s)) \<and> \<not> home_surfaces c e)) \<and>
   stop_is_final (events (home1_page ev s)) \<and>
   stop_is_final (events (home_page ev s)) \<and>
   (\<forall>c r. Ext c r \<in> set (events (home1_page ev s)) \<and> writes_persisted c \<longrightarrow>
        Ext c None \<in> set (events (home1_page (ev\<lparr>raises := (\<lambda>_. None)\<rparr>) s))) \<and>
   (\<forall>c r. Ext c r \<in> set (events (home_page ev s)) \<and> writes_persisted c \<longrightarrow>
        Ext c None \<in> set (events (home_page (ev\<lparr>raises := (\<lambda>_. None)\<rparr>) s)))"
proof -
  have c1: "surfaced home1_surfaces (events (home1_page ev s))"
    by (rule closedD [OF closed_home1_page])
  have c2: "surfaced home_surfaces (events (home_page ev s))"
    by (rule closedD [OF closed_home_page])
  have c3: "\<forall>c e. Ext c (Some e) \<in> set (events (home_page ev s)) \<and>
          (c = EmbeddingsInit \<or> c = ChatModelInit) \<and> \<not> is_DefaultCredentialsError e \<longrightarrow>
        filter is_message (events (home_page ev s)) = [] \<and>
        Ui StStop \<notin> set (events (home_page ev s)) \<and>
        (outcome (home_page ev s) = Inl e \<or>
         (\<exists>p r. raises ev (FileRemove p) = Some r \<and> \<not> is_Exception r \<and>
                outcome (home_page ev s) = Inl r))"
  proof (intro allI impI)
    fix c e
    assume a: "Ext c (Some e) \<in> set (events (home_page ev s)) \<and>
          (c = EmbeddingsInit \<or> c = ChatModelInit) \<and> \<not> is_DefaultCredentialsError e"
    then obtain f where f: "uploaded_file ev = Some f" "\<not> key_missing (api_key ev)"
      "raises ev (FileOpen (home_temp_path f)) = None"
      "raises ev (FileWrite (home_temp_path f) (file_bytes f)) = None"
      "raises ev EmbeddingsInit = Some e \<or>
       raises ev EmbeddingsInit = None \<and> raises ev ChatModelInit = Some e"
      using home_page_credentials_reached [of c e ev s] by blast
    from a have n: "\<not> is_DefaultCredentialsError e" by simp
    note run = home_page_credentials_run [OF f n, of s]
    have "outcome (home_page ev s) = Inl e \<or>
         (\<exists>p r. raises ev (FileRemove p) = Some r \<and> \<not> is_Exception r \<and>
                outcome (home_page ev s) = Inl r)"
      using run(3) by (cases "raises ev (FileRemove (home_temp_path f))") (auto split: if_splits)
    then show "filter is_message (events (home_page ev s)) = [] \<and>
        Ui StStop \<notin> set (events (home_page ev s)) \<and>
        (outcome (home_page ev s) = Inl e \<or>
         (\<exists>p r. raises ev (FileRemove p) = Some r \<and> \<not> is_Exception r \<and>
                outcome (home_page ev s) = Inl r))"
      using run(1,2) by blast
  qed
  have c4: "\<forall>a b q k e. events (home1_page ev s) = a @ Ext (SimilaritySearch q k) (Some e) # b \<and>
          is_Exception e \<longrightarrow>
        (\<exists>b'. b = Ext (SimilaritySearchWithScore q k)
                     (raises ev (SimilaritySearchWithScore q k)) # b')"
    using home1_page_falls_back by blast
  have c5: "distinct (map call_site (calls_made (events (home1_page ev s))))"
    by (rule distinct_sites_home1_page)
  have c6: "distinct (map call_site (calls_made (events (home_page ev s))))"
    by (rule distinct_sites_home_page)
  have c7: "\<forall>e. outcome (home1_page ev s) = Inl e \<longrightarrow>
        e = StopException \<or>
        (\<exists>c. Ext c (Some e) \<in> set (events (home1_page ev s)) \<and> \<not> home1_surfaces c e)"
    using originD [OF origin_home1_page, of s] by (simp add: any_session_def)
  have c8: "\<forall>e. outcome (home_page ev s) = Inl e \<longrightarrow>
        e = StopException \<or>
        (\<exists>c. Ext c (Some e) \<in> set (events (home_page ev s)) \<and> \<not> home_surfaces c e)"
    using originD [OF origin_home_page, of s] by (simp add: any_session_def)
  have c9: "stop_is_final (events (home1_page ev s))"
    by (rule stop_is_final_home1_page)
  have c10: "stop_is_final (events (home_page ev s))"
    by (rule stop_is_final_home_page)
  have c11: "\<forall>c r. Ext c r \<in> set (events (home1_page ev s)) \<and> writes_persisted c \<longrightarrow>
        Ext c None \<in> set (events (home1_page (ev\<lparr>raises := (\<lambda>_. None)\<rparr>) s))"
    using home1_page_writes_without_errors by blast
  have c12: "\<forall>c r. Ext c r \<in> set (events (home_page ev s)) \<and> writes_persisted c \<longrightarrow>
        Ext c None \<in> set (events (home_page (ev\<lparr>raises := (\<lambda>_. None)\<rparr>) s))"
    using home_page_writes_without_errors by blast
  show ?thesis
    using c1 c2 c3 c4 c5 c6 c7 c8 c9 c10 c11 c12 by (intro conjI)
qed

lemma home1_page_embeddings_failing:
  "events (home1_page embeddings_failing_env fresh_session) =
     [Ui StSetPageConfig, Ui (StTitle ([128196] @ ascii '' PDF Assistant'')), Ui StFileUploader,
      Ui (StSpinner (ascii ''Processing uploaded file...'')),
      Ext (FileOpen (home1_temp_path embeddings_failing_env \<lparr>file_name = ascii ''a.pdf'', file_bytes = [37, 80, 68, 70]\<rparr>)) None,
      Ext (FileWrite (home1_temp_path embeddings_failing_env \<lparr>file_name = ascii ''a.pdf'', file_bytes = [37, 80, 68, 70]\<rparr>) [37, 80, 68, 70]) None,
      Ext (PdfLoaderInit (home1_temp_path embeddings_failing_env \<lparr>file_name = ascii ''a.pdf'', file_bytes = [37, 80, 68, 70]\<rparr>)) None,
      Ext PdfLoaderLoad None, Ext TextSplitterInit None,
      Ext (SplitDocuments (loaded_pages embeddings_failing_env)) None,
      Ext EmbeddingsInit (Some (PyException (ascii ''invalid model''))),
      Ui (StError (ascii ''Failed to initialize OpenAI embeddings: '' @ ascii ''invalid model'')),
      Ui StStop,
      Ext (FileRemove (home1_temp_path embeddings_failing_env \<lparr>file_name = ascii ''a.pdf'', file_bytes = [37, 80, 68, 70]\<rparr>)) None]"
  "outcome (home1_page embeddings_failing_env fresh_session) = Inl StopException"
  by (simp_all add: home1_page_def home1_prelude_def home1_processing_def save_upload_def
      home1_load_documents_def home1_embeddings_def run_simps embeddings_failing_env_fields
      key_missing_def run_cleanup_temp ascii_eq_Nil)

lemma home_page_embeddings_failing_events:
  "Ext EmbeddingsInit (Some (PyException (ascii ''invalid model'')))
     \<in> set (events (home_page embeddings_failing_env fresh_session))"
  "Ext (FileWrite (ascii ''temp_a.pdf'') [37, 80, 68, 70]) None
     \<in> set (events (home_page embeddings_failing_env fresh_session))"
  by (simp_all add: home_stage_defs home_temp_path_def run_simps embeddings_failing_env_fields
      key_missing_def run_cleanup_temp ascii_def)

lemma embeddings_failing_temp_path:
  "home1_temp_path embeddings_failing_env \<lparr>file_name = ascii ''a.pdf'', file_bytes = [37, 80, 68, 70]\<rparr>
     = ascii ''/tmp/temp_a.pdf''"
  by (simp add: home1_temp_path_def os_path_join_def embeddings_failing_env_def example_env_def
      ascii_def)

theorem errors_surfaced_witness:
  "surfaced home1_surfaces (events (home1_page embeddings_failing_env fresh_session)) \<and>
   home1_surfaces EmbeddingsInit (PyException (ascii ''invalid model'')) \<and>
   events (home1_page embeddings_failing_env fresh_session) ! 10 =
     Ext EmbeddingsInit (Some (PyException (ascii ''invalid model''))) \<and>
   events (home1_page embeddings_failing_env fresh_session) ! 11 =
     Ui (StError (ascii ''Failed to initialize OpenAI embeddings: '' @ ascii ''invalid model'')) \<and>
   outcome (home1_page embeddings_failing_env fresh_session) = Inl StopException \<and>
   stop_is_final (events (home1_page embeddings_failing_env fresh_session)) \<and>
   Ext EmbeddingsInit (Some (PyException (ascii ''invalid model'')))
     \<in> set (events (home_page embeddings_failing_env fresh_session)) \<and>
   \<not> is_DefaultCredentialsError (PyException (ascii ''invalid model'')) \<and>
   filter is_message (events (home_page embeddings_failing_env fresh_session)) = [] \<and>
   outcome (home_page embeddings_failing_env fresh_session) =
     Inl (PyException (ascii ''invalid model'')) \<and>
   (\<exists>a b. events (home1_page fallback_env fresh_session) =
      a @ Ext (SimilaritySearch (ascii ''What reruns?'') 5)
            (Some (PyException (ascii ''not supported'')))
        # Ext (SimilaritySearchWithScore (ascii ''What reruns?'') 5) None # b) \<and>
   writes_persisted (FileWrite (ascii ''/tmp/temp_a.pdf'') [37, 80, 68, 70]) \<and>
   Ext (FileWrite (ascii ''/tmp/temp_a.pdf'') [37, 80, 68, 70]) None
     \<in> set (events (home1_page embeddings_failing_env fresh_session)) \<and>
   Ext (FileWrite (ascii ''/tmp/temp_a.pdf'') [37, 80, 68, 70]) None
     \<in> set (events (home1_page (embeddings_failing_env\<lparr>raises := (\<lambda>_. None)\<rparr>) fresh_session)) \<and>
   Ext (FileWrite (ascii ''temp_a.pdf'') [37, 80, 68, 70]) None
     \<in> set (events (home_page embeddings_failing_env fresh_session)) \<and>
   Ext (FileWrite (ascii ''temp_a.pdf'') [37, 80, 68, 70]) None
     \<in> set (events (home_page (embeddings_failing_env\<lparr>raises := (\<lambda>_. None)\<rparr>) fresh_session))"
proof -
  let ?e = "PyException (ascii ''invalid model'')"
  let ?x = "Ext (SimilaritySearch (ascii ''What reruns?'') 5)
              (Some (PyException (ascii ''not supported'')))"
  let ?w1 = "FileWrite (ascii ''/tmp/temp_a.pdf'') [37, 80, 68, 70]"
  let ?w = "FileWrite (ascii ''temp_a.pdf'') [37, 80, 68, 70]"
  note inst = errors_surfaced [of embeddings_failing_env fresh_session]
  note inst' = errors_surfaced [of fallback_env fresh_session]
  have old: "surfaced home1_surfaces (events (home1_page embeddings_failing_env fresh_session))"
    "home1_surfaces EmbeddingsInit ?e"
    "events (home1_page embeddings_failing_env fresh_session) ! 10 = Ext EmbeddingsInit (Some ?e)"
    "events (home1_page embeddings_failing_env fresh_session) ! 11 =
       Ui (StError (ascii ''Failed to initialize OpenAI embeddings: '' @ ascii ''invalid model''))"
    "outcome (home1_page embeddings_failing_env fresh_session) = Inl StopException"
    "stop_is_final (events (home1_page embeddings_failing_env fresh_session))"
    using inst by (simp_all add: home1_page_embeddings_failing)
  have mem: "Ext EmbeddingsInit (Some ?e) \<in> set (events (home_page embeddings_failing_env fresh_session))"
    by (rule home_page_embeddings_failing_events(1))
  have n: "\<not> is_DefaultCredentialsError ?e" by simp
  have "filter is_message (events (home_page embeddings_failing_env fresh_session)) = [] \<and>
        (outcome (home_page embeddings_failing_env fresh_session) = Inl ?e \<or>
         (\<exists>p r. raises embeddings_failing_env (FileRemove p) = Some r \<and> \<not> is_Exception r \<and>
                outcome (home_page embeddings_failing_env fresh_session) = Inl r))"
    using inst mem n by blast
  then have gem: "filter is_message (events (home_page embeddings_failing_env fresh_session)) = []"
    "outcome (home_page embeddings_failing_env fresh_session) = Inl ?e"
    by (simp_all add: embeddings_failing_env_fields)
  have "?x \<in> set (events (home1_page fallback_env fresh_session))"
    by (rule home1_page_fallback(3))
  then obtain a b where ab: "events (home1_page fallback_env fresh_session) = a @ ?x # b"
    by (auto simp: in_set_conv_decomp)
  have "is_Exception (PyException (ascii ''not supported''))" by simp
  then have "\<exists>b'. b = Ext (SimilaritySearchWithScore (ascii ''What reruns?'') 5)
                      (raises fallback_env (SimilaritySearchWithScore (ascii ''What reruns?'') 5)) # b'"
    using inst' ab by blast
  then have fb: "\<exists>a b. events (home1_page fallback_env fresh_session) =
      a @ ?x # Ext (SimilaritySearchWithScore (ascii ''What reruns?'') 5) None # b"
    using ab by (auto simp: fallback_env_fields)
  have wp: "writes_persisted ?w1" "writes_persisted ?w"
    by (simp_all add: writes_persisted_def)
  have m1: "Ext ?w1 None \<in> set (events (home1_page embeddings_failing_env fresh_session))"
    by (simp add: home1_page_embeddings_failing embeddings_failing_temp_path)
  have m2: "Ext ?w None \<in> set (events (home_page embeddings_failing_env fresh_session))"
    by (rule home_page_embeddings_failing_events(2))
  have w1: "Ext ?w1 None
     \<in> set (events (home1_page (embeddings_failing_env\<lparr>raises := (\<lambda>_. None)\<rparr>) fresh_session))"
    using inst m1 wp(1) by blast
  have w2: "Ext ?w None
     \<in> set (events (home_page (embeddings_failing_env\<lparr>raises := (\<lambda>_. None)\<rparr>) fresh_session))"
    using inst m2 wp(2) by blast
  show ?thesis
    using old mem n gem fb wp(1) m1 w1 m2 w2 by (intro conjI)
qed

end
